theory Spec2Isabelle
  imports Main "HOL-Library.Sublist"
begin

section \<open>The GUGiK HTTP client: the model of app/core/gugik\_client.py\<close>

text \<open>
  A shallow embedding of \<^verbatim>\<open>GugikHttpClient\<close>. Python strings are modelled as
  \<^typ>\<open>string\<close>; every character the code inspects (\<^verbatim>\<open>/ ? = _\<close> and the rule markers)
  is ASCII. A Python exception is a value of \<open>exn\<close>; a function that may raise returns
  \<open>exn + 'a\<close>, with \<open>Inl\<close> for the exception.
\<close>

subsection \<open>Exceptions\<close>

text \<open>
  The exception classes the code distinguishes. \<open>ConnectionError\<close> and
  \<open>ChunkedEncodingError\<close> are the classes of \<^verbatim>\<open>requests.exceptions\<close>; \<open>IOError\<close> stands
  for every other \<^verbatim>\<open>OSError\<close> (in Python 3 \<^verbatim>\<open>IOError\<close> is \<^verbatim>\<open>OSError\<close>, and every other
  \<^verbatim>\<open>RequestException\<close> is one too); \<open>OtherError\<close> is any exception outside these classes.
\<close>

datatype exn = IndexError | ValueError | AttributeError | ConnectionError
  | ChunkedEncodingError | IOError | OtherError

subsection \<open>String primitives of Python\<close>

text \<open>\<^verbatim>\<open>s.split(sep)\<close> for a one-character separator: never empty, \<^verbatim>\<open>''.split('/') == ['']\<close>.\<close>

fun split_py :: "char \<Rightarrow> string \<Rightarrow> string list" where
  "split_py sep [] = [[]]"
| "split_py sep (c # cs) =
     (if c = sep then [] # split_py sep cs
      else (case split_py sep cs of
              [] \<Rightarrow> [[c]]
            | seg # segs \<Rightarrow> (c # seg) # segs))"

text \<open>\<^verbatim>\<open>sub in s\<close>: \<open>sub\<close> occurs in \<open>s\<close> as a contiguous substring.\<close>

fun str_in :: "string \<Rightarrow> string \<Rightarrow> bool" where
  "str_in sub [] = (sub = [])"
| "str_in sub (c # cs) = (prefix sub (c # cs) \<or> str_in sub cs)"

text \<open>\<^verbatim>\<open>s.replace(a, b)\<close> for one-character \<open>a\<close> and \<open>b\<close>.\<close>

definition replace_py :: "char \<Rightarrow> char \<Rightarrow> string \<Rightarrow> string" where
  "replace_py a b s = map (\<lambda>c. if c = a then b else c) s"

text \<open>\<^verbatim>\<open>xs[i]\<close> for a literal index \<open>i \<ge> 0\<close>: raises \<^verbatim>\<open>IndexError\<close> out of range.\<close>

definition index_py :: "'a list \<Rightarrow> nat \<Rightarrow> exn + 'a" where
  "index_py xs i = (if i < length xs then Inr (xs ! i) else Inl IndexError)"

text \<open>\<^verbatim>\<open>xs[-1]\<close>: the last element, \<^verbatim>\<open>IndexError\<close> on the empty list.\<close>

definition last_py :: "'a list \<Rightarrow> exn + 'a" where
  "last_py xs = (case xs of [] \<Rightarrow> Inl IndexError | _ \<Rightarrow> Inr (last xs))"

text \<open>Sequencing of computations that may raise.\<close>

definition bind_exn :: "exn + 'a \<Rightarrow> ('a \<Rightarrow> exn + 'b) \<Rightarrow> exn + 'b" where
  "bind_exn m f = (case m of Inl e \<Rightarrow> Inl e | Inr x \<Rightarrow> f x)"

subsection \<open>The filename classifier\<close>

text \<open>
  Lines 152--154 of \<^verbatim>\<open>_generate_filename\<close>: the last \<^verbatim>\<open>/\<close>-segment of the URL; when it
  contains \<^verbatim>\<open>?\<close>, the piece after the last \<^verbatim>\<open>?\<close> with \<^verbatim>\<open>=\<close> replaced by \<^verbatim>\<open>_\<close>, plus
  \<^verbatim>\<open>.zip\<close>.
\<close>

definition baseline :: "string \<Rightarrow> exn + string" where
  "baseline url =
     bind_exn (last_py (split_py CHR ''/'' url)) (\<lambda>file_name.
       if str_in ''?'' file_name then
         bind_exn (last_py (split_py CHR ''?'' file_name)) (\<lambda>q.
           Inr (replace_py CHR ''='' CHR ''_'' q @ ''.zip''))
       else Inr file_name)"

text \<open>Lines 156--176: the \<^verbatim>\<open>if\<close>/\<^verbatim>\<open>elif\<close> chain of prefix rules, in the source's order.\<close>

definition generate_filename :: "string \<Rightarrow> exn + string" where
  "generate_filename url =
     bind_exn (baseline url) (\<lambda>file_name.
       if str_in ''Budynki3D'' url then
         (let file_name =
            (if str_in ''LOD1'' url then ''Budynki_3D_LOD1_'' @ file_name
             else if str_in ''LOD2'' url then ''Budynki_3D_LOD2_'' @ file_name
             else file_name)
          in if length (split_py CHR ''/'' url) = 9 then
               bind_exn (index_py (split_py CHR ''/'' url) 6) (\<lambda>seg.
                 Inr (seg @ ''_'' @ file_name))
             else Inr file_name)
       else if str_in ''PRG'' url then Inr (''PRG_'' @ file_name)
       else if str_in ''bdot10k'' url \<and> \<not> str_in ''Archiwum'' url then
         Inr (''bdot10k_'' @ file_name)
       else if str_in ''Archiwum'' url \<and> str_in ''bdot10k'' url then
         bind_exn (index_py (split_py CHR ''/'' url) 5) (\<lambda>seg.
           Inr (''archiwalne_bdot10k_'' @ seg @ ''_'' @ file_name))
       else if str_in ''bdoo'' url then
         bind_exn (index_py (split_py CHR ''/'' url) 4) (\<lambda>seg.
           Inr (''bdoo_'' @ ''rok'' @ seg @ ''_'' @ file_name))
       else if str_in ''ZestawieniaZbiorczeEGiB'' url then
         bind_exn (index_py (split_py CHR ''/'' url) 4) (\<lambda>seg.
           Inr (''ZestawieniaZbiorczeEGiB_'' @ ''rok'' @ seg @ ''_'' @ file_name))
       else if str_in ''osnowa'' url then Inr (''podstawowa_osnowa_'' @ file_name)
       else Inr file_name)"

text \<open>
  The value of \<open>baseline\<close>: \<^verbatim>\<open>split\<close> never returns the empty list, so neither
  \<^verbatim>\<open>[-1]\<close> of lines 152 and 154 can raise (lemma \<open>baseline_total\<close> below).
\<close>

definition baseline_name :: "string \<Rightarrow> string" where
  "baseline_name url =
     (let file_name = last (split_py CHR ''/'' url) in
      if str_in ''?'' file_name
      then replace_py CHR ''='' CHR ''_'' (last (split_py CHR ''?'' file_name)) @ ''.zip''
      else file_name)"

subsection \<open>The environment: prober, transport, file system\<close>

text \<open>
  The returned \<^verbatim>\<open>str\<close> of \<^verbatim>\<open>Tuple[bool, str]\<close>. The reasons are fixed Polish texts
  outside ASCII, so each is a constructor named after its text:
  \<open>Polaczenie_zostalo_przerwane\<close> (connection interrupted), \<open>Blad code\<close>
  (the f-string naming the status code), \<open>Przekroczono_maksymalna_liczbe_prob\<close> (attempts
  exhausted), \<open>Plik_nie_istnieje\<close> (file does not exist), \<open>Pobieranie_anulowane\<close>
  (download cancelled), \<open>Blad_zapisu_pliku\<close> (file write error). \<open>Body\<close> carries
  \<^verbatim>\<open>response.text\<close> and \<open>Path\<close> the destination path.
\<close>

datatype message = Body string | Path string
  | Polaczenie_zostalo_przerwane | Blad int | Przekroczono_maksymalna_liczbe_prob
  | Plik_nie_istnieje | Pobieranie_anulowane | Blad_zapisu_pliku

text \<open>
  The \<^verbatim>\<open>content-length\<close> header as \<^verbatim>\<open>int(...)\<close> sees it: absent, a text that parses
  to an integer, or a text on which \<^verbatim>\<open>int\<close> raises \<^verbatim>\<open>ValueError\<close>.
\<close>

datatype header = Absent | IntText int | BadText

text \<open>
  What \<^verbatim>\<open>response.iter_content\<close> produces, in order: a chunk of bytes, or an exception
  raised while reading. The end of the list is the end of the stream.
\<close>

datatype stream_item = Chunk string | StreamRaises exn

datatype response =
  Response (status_code: int) (content_length: header) (resp_text: string)
    (iter_content: "stream_item list")

text \<open>
  The world the client runs in. The collaborators the code calls are oracles indexed by
  the number of calls made so far: \<open>connected w k\<close> is what the \<open>k\<close>-th call of
  \<^verbatim>\<open>_is_internet_connected\<close> returns, \<open>session_get w k\<close> is the outcome of the \<open>k\<close>-th
  \<^verbatim>\<open>session.get\<close> (a response, or an exception). \<open>probes\<close>, \<open>gets\<close> count these calls,
  \<open>slept\<close> the seconds spent in \<^verbatim>\<open>time.sleep\<close>, \<open>written\<close> the bytes passed to
  \<^verbatim>\<open>f.write\<close>, and \<open>progress\<close> logs the arguments of the progress callback. \<open>files\<close>
  maps the path of each existing file to its contents. \<open>makedirs_raises\<close>, \<open>open_raises\<close>
  and \<open>write_raises k\<close> (for the \<open>k\<close>-th write of a download) say where the file system
  answers with an \<^verbatim>\<open>OSError\<close>; removing an existing file always succeeds. The
  callbacks of the caller are taken not to raise.
\<close>

record world =
  connected :: "nat \<Rightarrow> bool"
  probes :: nat
  session_get :: "nat \<Rightarrow> exn + response"
  gets :: nat
  slept :: nat
  files :: "string \<rightharpoonup> string"
  written :: nat
  progress :: "(nat \<times> int) list"
  makedirs_raises :: bool
  open_raises :: bool
  write_raises :: "nat \<Rightarrow> bool"

text \<open>\<^verbatim>\<open>_is_internet_connected\<close>: it catches its own errors and returns a bool.\<close>

definition is_internet_connected :: "world \<Rightarrow> bool \<times> world" where
  "is_internet_connected w = (connected w (probes w), w\<lparr>probes := Suc (probes w)\<rparr>)"

text \<open>One call of \<^verbatim>\<open>self.session.get\<close>.\<close>

definition call_session_get :: "world \<Rightarrow> (exn + response) \<times> world" where
  "call_session_get w = (session_get w (gets w), w\<lparr>gets := Suc (gets w)\<rparr>)"

definition sleep :: "nat \<Rightarrow> world \<Rightarrow> world" where
  "sleep n w = w\<lparr>slept := slept w + n\<rparr>"

subsection \<open>The request/retry engine\<close>

text \<open>
  The \<^verbatim>\<open>while attempt <= max_attempts\<close> loop of \<^verbatim>\<open>get_request\<close>. Only
  \<^verbatim>\<open>ConnectionError\<close> is caught; any other exception of the transport leaves the function.
  The URL and the parameters only select the answers of the transport, which are the
  oracle's.
\<close>

function get_request_loop :: "int \<Rightarrow> int \<Rightarrow> world \<Rightarrow> (exn + bool \<times> message) \<times> world" where
  "get_request_loop max_attempts attempt w =
     (if attempt \<le> max_attempts then
        (case is_internet_connected w of (up, w1) \<Rightarrow>
           if \<not> up then (Inr (False, Polaczenie_zostalo_przerwane), w1)
           else (case call_session_get w1 of
                   (Inr response, w2) \<Rightarrow>
                     if status_code response = 200
                     then (Inr (True, Body (resp_text response)), w2)
                     else (Inr (False, Blad (status_code response)), w2)
                 | (Inl e, w2) \<Rightarrow>
                     if e = ConnectionError
                     then get_request_loop max_attempts (attempt + 1) (sleep 2 w2)
                     else (Inl e, w2)))
      else (Inr (False, Przekroczono_maksymalna_liczbe_prob), w))"
  by pat_completeness auto
termination
  by (relation "measure (\<lambda>(max_attempts, attempt, w). nat (max_attempts + 1 - attempt))") auto

declare get_request_loop.simps [simp del]

definition get_request ::
  "(string \<times> string) list \<Rightarrow> string \<Rightarrow> int \<Rightarrow> world \<Rightarrow> (exn + bool \<times> message) \<times> world" where
  "get_request params url max_attempts w = get_request_loop max_attempts 0 w"

subsection \<open>The streaming downloader\<close>

text \<open>\<^verbatim>\<open>os.path.join\<close> of two components (POSIX).\<close>

definition os_path_join :: "string \<Rightarrow> string \<Rightarrow> string" where
  "os_path_join a b =
     (if prefix ''/'' b then b
      else if a = [] \<or> last a = CHR ''/'' then a @ b
      else a @ ''/'' @ b)"

text \<open>\<^verbatim>\<open>_cleanup_file\<close>: remove the file if it exists.\<close>

definition cleanup_file :: "string \<Rightarrow> world \<Rightarrow> world" where
  "cleanup_file path w =
     (if path \<in> dom (files w) then w\<lparr>files := (files w)(path := None)\<rparr> else w)"

text \<open>\<^verbatim>\<open>f.write(chunk)\<close> on the file opened at \<open>path\<close>.\<close>

definition write_chunk :: "string \<Rightarrow> string \<Rightarrow> world \<Rightarrow> world" where
  "write_chunk path chunk w =
     w\<lparr>files := (case files w path of
                   None \<Rightarrow> files w
                 | Some old \<Rightarrow> (files w)(path \<mapsto> old @ chunk)),
       written := written w + length chunk\<rparr>"

text \<open>
  \<^verbatim>\<open>cancel_check and cancel_check()\<close> at the \<open>i\<close>-th chunk: false when no predicate was
  supplied.
\<close>

definition cancelled :: "(nat \<Rightarrow> bool) option \<Rightarrow> nat \<Rightarrow> bool" where
  "cancelled cancel_check i = (case cancel_check of None \<Rightarrow> False | Some f \<Rightarrow> f i)"

text \<open>How a block of statements ends: it runs to its end, returns a value, or raises.\<close>

datatype exit = Completed | Return "bool \<times> message" | Raise exn

text \<open>
  The \<^verbatim>\<open>for chunk in response.iter_content(...)\<close> loop (lines 72--87). \<open>i\<close> counts the
  chunks read so far and \<open>downloaded\<close> is the source's counter. \<open>cancel_check\<close> is the
  optional predicate, \<open>f i\<close> its answer at the \<open>i\<close>-th chunk; \<open>progress_callback\<close> says
  whether a callback was supplied.
\<close>

fun iter_chunks ::
  "string \<Rightarrow> int \<Rightarrow> bool \<Rightarrow> (nat \<Rightarrow> bool) option \<Rightarrow> stream_item list \<Rightarrow> nat \<Rightarrow> nat \<Rightarrow> world
     \<Rightarrow> exit \<times> world" where
  "iter_chunks path total_size progress_callback cancel_check [] i downloaded w = (Completed, w)"
| "iter_chunks path total_size progress_callback cancel_check (StreamRaises e # rest) i downloaded w =
     (Raise e, w)"
| "iter_chunks path total_size progress_callback cancel_check (Chunk chunk # rest) i downloaded w =
     (if cancelled cancel_check i
      then (Return (False, Pobieranie_anulowane), cleanup_file path w)
      else (case (if downloaded mod 10000000 = 0 then is_internet_connected w else (True, w)) of
              (up, w1) \<Rightarrow>
                if \<not> up then (Return (False, Polaczenie_zostalo_przerwane), cleanup_file path w1)
                else if write_raises w1 i then (Raise IOError, w1)
                else (let w2 = write_chunk path chunk w1;
                          downloaded = downloaded + length chunk;
                          w3 = (if progress_callback
                                then w2\<lparr>progress := progress w2 @ [(downloaded, total_size)]\<rparr>
                                else w2)
                      in iter_chunks path total_size progress_callback cancel_check rest
                           (Suc i) downloaded w3)))"

text \<open>\<^verbatim>\<open>int(response.headers.get('content-length', 0))\<close>.\<close>

definition total_size_of :: "header \<Rightarrow> exn + int" where
  "total_size_of h = (case h of Absent \<Rightarrow> Inr 0 | IntText n \<Rightarrow> Inr n | BadText \<Rightarrow> Inl ValueError)"

text \<open>
  The body of the \<^verbatim>\<open>try\<close> block (lines 62--91): \<open>Inr\<close> is the value of a
  \<^verbatim>\<open>return\<close>, \<open>Inl\<close> an exception on its way to the handlers.
\<close>

definition download_try ::
  "string \<Rightarrow> bool \<Rightarrow> (nat \<Rightarrow> bool) option \<Rightarrow> world \<Rightarrow> (exn + bool \<times> message) \<times> world" where
  "download_try path progress_callback cancel_check w =
     (case call_session_get w of
        (Inl e, w1) \<Rightarrow> (Inl e, w1)
      | (Inr response, w1) \<Rightarrow>
          if status_code response = 404 then (Inr (False, Plik_nie_istnieje), w1)
          else (case total_size_of (content_length response) of
                  Inl e \<Rightarrow> (Inl e, w1)
                | Inr total_size \<Rightarrow>
                    (let w2 = cleanup_file path w1
                     in if makedirs_raises w2 then (Inl IOError, w2)
                        else if open_raises w2 then (Inl IOError, w2)
                        else (case iter_chunks path total_size progress_callback cancel_check
                                     (iter_content response) 0 0
                                     (w2\<lparr>files := (files w2)(path \<mapsto> [])\<rparr>) of
                                (Completed, w3) \<Rightarrow> (Inr (True, Path path), w3)
                              | (Return r, w3) \<Rightarrow> (Inr r, w3)
                              | (Raise e, w3) \<Rightarrow> (Inl e, w3)))))"

text \<open>
  \<^verbatim>\<open>download_file\<close>: the filename is derived outside the \<^verbatim>\<open>try\<close>, so its
  \<^verbatim>\<open>IndexError\<close> leaves the function; the two \<^verbatim>\<open>except\<close> clauses follow, the first with
  cleanup and the second without.
\<close>

definition download_file ::
  "string \<Rightarrow> string \<Rightarrow> bool \<Rightarrow> (nat \<Rightarrow> bool) option \<Rightarrow> world \<Rightarrow> (exn + bool \<times> message) \<times> world" where
  "download_file url dest_folder progress_callback cancel_check w =
     (case generate_filename url of
        Inl e \<Rightarrow> (Inl e, w)
      | Inr file_name \<Rightarrow>
          (let path = os_path_join dest_folder file_name in
           case download_try path progress_callback cancel_check w of
             (Inr r, w1) \<Rightarrow> (Inr r, w1)
           | (Inl e, w1) \<Rightarrow>
               if e = ConnectionError \<or> e = ChunkedEncodingError
               then (Inr (False, Polaczenie_zostalo_przerwane), cleanup_file path w1)
               else if e = IOError then (Inr (False, Blad_zapisu_pliku), w1)
               else (Inl e, w1)))"

subsection \<open>The capability-document layer extractor\<close>

text \<open>
  The tree \<^verbatim>\<open>lxml\<close> hands to the code: an element has a namespace URI (or none), a local
  name, its \<^verbatim>\<open>.text\<close> (\<^verbatim>\<open>None\<close> when absent) and its child elements in document order.
\<close>

datatype xml =
  Element (el_ns: "string option") (el_tag: string) (el_text: "string option")
    (el_children: "xml list")

definition is_el :: "string option \<Rightarrow> string \<Rightarrow> xml \<Rightarrow> bool" where
  "is_el ns name e \<longleftrightarrow> el_ns e = ns \<and> el_tag e = name"

text \<open>\<^verbatim>\<open>[el.text] if el.text else []\<close>: the text of an element when it is not empty.\<close>

definition truthy_text :: "xml \<Rightarrow> string list" where
  "truthy_text e = (case el_text e of None \<Rightarrow> [] | Some t \<Rightarrow> if t = [] then [] else [t])"

text \<open>The proper descendants of an element, in document order.\<close>

fun descendants :: "xml \<Rightarrow> xml list" where
  "descendants (Element ns t x cs) = concat (map (\<lambda>c. c # descendants c) cs)"

text \<open>
  Lines 125--128, the branch without a default namespace: every descendant \<^verbatim>\<open>Layer\<close> of
  the root (\<^verbatim>\<open>findall(".//Layer")\<close>), in document order, gives the text of its first
  \<^verbatim>\<open>Name\<close> child (\<^verbatim>\<open>find("Name")\<close>) when that text is not empty.
\<close>

definition findall_layer_names :: "xml \<Rightarrow> string list" where
  "findall_layer_names root =
     concat (map (\<lambda>layer. case find (is_el None ''Name'') (el_children layer) of
                             None \<Rightarrow> []
                           | Some name_el \<Rightarrow> truthy_text name_el)
                 (filter (is_el None ''Layer'') (descendants root)))"

text \<open>
  Line 122, the XPath \<^verbatim>\<open>.//wms:Capability//wms:Layer[wms:Name]/wms:Name\<close> with \<^verbatim>\<open>wms\<close>
  bound to \<open>uri\<close>: the node set of the \<^verbatim>\<open>Name\<close> elements whose parent is a \<^verbatim>\<open>Layer\<close>
  that has, among its proper ancestors other than the root, a \<^verbatim>\<open>Capability\<close>; every
  node once, in document order. \<open>ancestors\<close> lists the ancestors of the element,
  nearest first, so the root is its last entry.
\<close>

fun xpath_layer_names :: "string \<Rightarrow> xml list \<Rightarrow> xml \<Rightarrow> xml list" where
  "xpath_layer_names uri ancestors (Element ns t x cs) =
     (if is_el (Some uri) ''Name'' (Element ns t x cs) \<and>
         (case ancestors of
            [] \<Rightarrow> False
          | parent # elders \<Rightarrow>
              is_el (Some uri) ''Layer'' parent \<and>
              (\<exists>c \<in> set (butlast elders). is_el (Some uri) ''Capability'' c))
      then [Element ns t x cs] else [])
     @ concat (map (xpath_layer_names uri (Element ns t x cs # ancestors)) cs)"

text \<open>
  The list \<^verbatim>\<open>layers\<close> before line 130. \<open>ns_uri\<close> is \<^verbatim>\<open>root.nsmap.get(None)\<close>, the
  default namespace declared on the root; \<^verbatim>\<open>if ns_uri\<close> is false for \<^verbatim>\<open>None\<close> and for
  the empty string.
\<close>

definition collect_layers :: "string option \<Rightarrow> xml \<Rightarrow> string list" where
  "collect_layers ns_uri root =
     (case ns_uri of
        None \<Rightarrow> findall_layer_names root
      | Some uri \<Rightarrow>
          if uri = [] then findall_layer_names root
          else concat (map truthy_text (xpath_layer_names uri [] root)))"

text \<open>
  \<^verbatim>\<open>list(dict.fromkeys(layers))\<close>: the keys of an insertion-ordered dictionary; a key
  that is already present keeps its place.
\<close>

fun fromkeys :: "'a list \<Rightarrow> 'a list \<Rightarrow> 'a list" where
  "fromkeys keys [] = keys"
| "fromkeys keys (x # xs) =
     (if x \<in> set keys then fromkeys keys xs else fromkeys (keys @ [x]) xs)"

definition dict_fromkeys :: "'a list \<Rightarrow> 'a list" where
  "dict_fromkeys xs = fromkeys [] xs"

text \<open>Lines 113--130 of \<^verbatim>\<open>get_wms_layers\<close>, from the parsed root on.\<close>

definition extract_layers :: "string option \<Rightarrow> xml \<Rightarrow> string list" where
  "extract_layers ns_uri root = dict_fromkeys (collect_layers ns_uri root)"

text \<open>
  The specification's wording of the last step, for comparison: the values in their
  order, each kept at its first occurrence only.
\<close>

definition first_occurrences :: "'a list \<Rightarrow> 'a list" where
  "first_occurrences xs =
     map (\<lambda>i. xs ! i) (filter (\<lambda>i. xs ! i \<notin> set (take i xs)) [0..<length xs])"

text \<open>
  The document by positions, for comparison with the two queries. A position is the list
  of child indices that leads from the root to an element; \<open>positions\<close> lists the
  positions of all elements in document order, the root's \<open>[]\<close> first.
\<close>

fun node_at :: "xml \<Rightarrow> nat list \<Rightarrow> xml option" where
  "node_at e [] = Some e"
| "node_at e (i # p) =
     (if i < length (el_children e) then node_at (el_children e ! i) p else None)"

fun positions :: "xml \<Rightarrow> nat list list"
  and positions_from :: "nat \<Rightarrow> xml list \<Rightarrow> nat list list" where
  "positions (Element ns t x cs) = [] # positions_from 0 cs"
| "positions_from i [] = []"
| "positions_from i (c # cs) = map ((#) i) (positions c) @ positions_from (Suc i) cs"

definition el_at :: "xml \<Rightarrow> nat list \<Rightarrow> string option \<Rightarrow> string \<Rightarrow> bool" where
  "el_at root p ns name = (case node_at root p of None \<Rightarrow> False | Some e \<Rightarrow> is_el ns name e)"

text \<open>The non-empty text of the element at a position.\<close>

definition text_at :: "xml \<Rightarrow> nat list \<Rightarrow> string list" where
  "text_at root p = (case node_at root p of None \<Rightarrow> [] | Some e \<Rightarrow> truthy_text e)"

text \<open>
  The specification's Layer/Name entries (section 4.5): \<open>p\<close> is the position of a
  \<^verbatim>\<open>Name\<close> element whose parent is a \<^verbatim>\<open>Layer\<close>; with a namespace, that \<^verbatim>\<open>Layer\<close> lies
  under a \<^verbatim>\<open>Capability\<close> below the root, all three in the namespace; without one, the
  \<^verbatim>\<open>Layer\<close> is any descendant of the root.
\<close>

definition layer_name_position :: "string option \<Rightarrow> xml \<Rightarrow> nat list \<Rightarrow> bool" where
  "layer_name_position ns root p \<longleftrightarrow>
     p \<noteq> [] \<and> el_at root p ns ''Name'' \<and> el_at root (butlast p) ns ''Layer'' \<and>
     (case ns of
        None \<Rightarrow> butlast p \<noteq> []
      | Some uri \<Rightarrow> (\<exists>k \<in> set [1..<length p - 1]. el_at root (take k p) ns ''Capability''))"

text \<open>The specification's wording: the non-empty \<^verbatim>\<open>Name\<close> values in document order.\<close>

definition name_values :: "string option \<Rightarrow> xml \<Rightarrow> string list" where
  "name_values ns root =
     concat (map (text_at root) (filter (layer_name_position ns root) (positions root)))"

text \<open>
  What the branch without namespace collects, by positions: for each \<^verbatim>\<open>Layer\<close> below
  the root, in the document order of the \<^verbatim>\<open>Layer\<close> elements, the non-empty text of its
  first \<^verbatim>\<open>Name\<close> child.
\<close>

definition first_name_values :: "xml \<Rightarrow> string list" where
  "first_name_values root =
     concat (map (\<lambda>q. case node_at root q of
                         None \<Rightarrow> []
                       | Some layer \<Rightarrow>
                           (case find (is_el None ''Name'') (el_children layer) of
                              None \<Rightarrow> []
                            | Some name_el \<Rightarrow> truthy_text name_el))
                 (filter (\<lambda>q. q \<noteq> [] \<and> el_at root q None ''Layer'') (positions root)))"

text \<open>The ancestors of the element at position \<open>q\<close>, nearest first.\<close>

definition chain :: "xml \<Rightarrow> nat list \<Rightarrow> xml list" where
  "chain root q = map (\<lambda>k. the (node_at root (take k q))) (rev [0..<length q])"

subsection \<open>Concrete inputs\<close>

text \<open>
  A fresh world for the examples: nothing has been called yet, the file system accepts
  every directory and every open; the prober, the transport, the files present and the
  failing writes are the arguments.
\<close>

definition fresh_world ::
  "(nat \<Rightarrow> bool) \<Rightarrow> (nat \<Rightarrow> exn + response) \<Rightarrow> (string \<rightharpoonup> string) \<Rightarrow> (nat \<Rightarrow> bool) \<Rightarrow> world" where
  "fresh_world prober transport fs failing_writes =
     \<lparr>connected = prober, probes = 0, session_get = transport, gets = 0, slept = 0,
      files = fs, written = 0, progress = [],
      makedirs_raises = False, open_raises = False, write_raises = failing_writes\<rparr>"

text \<open>
  Two capability documents with the layer \<^verbatim>\<open>A\<close> named twice, at different depths: one
  without namespaces, one in the WMS 1.3.0 namespace.
\<close>

definition doc_plain :: xml where
  "doc_plain = Element None ''WMT_MS_Capabilities'' None
     [Element None ''Capability'' None
        [Element None ''Layer'' None
           [Element None ''Name'' (Some ''A'') [],
            Element None ''Layer'' None [Element None ''Name'' (Some ''A'') []]]]]"

definition doc_wms :: xml where
  "doc_wms = Element (Some ''http://www.opengis.net/wms'') ''WMS_Capabilities'' None
     [Element (Some ''http://www.opengis.net/wms'') ''Capability'' None
        [Element (Some ''http://www.opengis.net/wms'') ''Layer'' None
           [Element (Some ''http://www.opengis.net/wms'') ''Name'' (Some ''A'') [],
            Element (Some ''http://www.opengis.net/wms'') ''Layer'' None
              [Element (Some ''http://www.opengis.net/wms'') ''Name'' (Some ''A'') []]]]]"

text \<open>
  Two documents without namespace: a layer whose \<^verbatim>\<open>Name\<close> follows a nested layer, and
  a layer with two \<^verbatim>\<open>Name\<close> children.
\<close>

definition doc_late_name :: xml where
  "doc_late_name = Element None ''WMT_MS_Capabilities'' None
     [Element None ''Capability'' None
        [Element None ''Layer'' None
           [Element None ''Layer'' None [Element None ''Name'' (Some ''B'') []],
            Element None ''Name'' (Some ''A'') []]]]"

definition doc_two_names :: xml where
  "doc_two_names = Element None ''WMT_MS_Capabilities'' None
     [Element None ''Capability'' None
        [Element None ''Layer'' None
           [Element None ''Name'' (Some ''A'') [],
            Element None ''Name'' (Some ''B'') []]]]"

section \<open>Properties of the filename classifier\<close>

subsection \<open>Facts about the string primitives\<close>

lemma split_py_nonempty: "split_py sep s \<noteq> []"
  by (induction s) (auto split: list.splits)

lemma str_in_iff: "str_in sub s \<longleftrightarrow> sublist sub s"
  by (induction s) (auto simp: sublist_Cons_right)

lemma last_py_split: "last_py (split_py sep s) = Inr (last (split_py sep s))"
  by (simp add: last_py_def split_py_nonempty split: list.splits)

lemma baseline_total: "baseline url = Inr (baseline_name url)"
  by (simp add: baseline_def baseline_name_def bind_exn_def last_py_split Let_def)

lemma replace_py_no_eq: "CHR ''='' \<notin> set (replace_py CHR ''='' CHR ''_'' s)"
  by (auto simp: replace_py_def)

text \<open>
  A returned filename is the baseline behind a prefix, and the only part of the prefix
  that is not a fixed text is a URL segment at index 4, 5 or 6.
\<close>

lemma classify_prefix:
  assumes "generate_filename url = Inr f"
  shows "\<exists>p. f = p @ baseline_name url \<and>
    (CHR ''='' \<in> set p \<longrightarrow>
       (\<exists>i\<in>{4,5,6}. i < length (split_py CHR ''/'' url) \<and>
                     CHR ''='' \<in> set (split_py CHR ''/'' url ! i)))"
  using assms unfolding generate_filename_def baseline_total bind_exn_def index_py_def
  by (auto simp: Let_def split: if_splits)

subsection \<open>Totality (C5)\<close>

text \<open>
  Claim C5 says the classifier returns a filename for every URL, also for one with fewer
  segments than the index a rule reads. The code reads the segment unguarded: the URL
  below has five segments and selects the Archiwum rule, which reads index 5.
\<close>

theorem classify_short_url_raises:
  "generate_filename ''https://opendata.geoportal.gov.pl/Archiwum/bdot10k'' = Inl IndexError"
  by (simp add: generate_filename_def baseline_def bind_exn_def last_py_def index_py_def
        replace_py_def)

text \<open>
  Claim C5, amended: the classifier is a function of the URL alone; it returns a filename
  or raises \<^verbatim>\<open>IndexError\<close>, and it raises exactly when the first rule that matches is the
  Archiwum rule on a URL of fewer than 6 segments, or the bdoo or
  ZestawieniaZbiorczeEGiB rule on a URL of fewer than 5 segments.
\<close>

theorem classify_raises_iff:
  "((\<exists>f. generate_filename url = Inr f) \<or> generate_filename url = Inl IndexError) \<and>
   (generate_filename url = Inl IndexError \<longleftrightarrow>
      \<not> str_in ''Budynki3D'' url \<and> \<not> str_in ''PRG'' url \<and>
      (str_in ''Archiwum'' url \<and> str_in ''bdot10k'' url \<and> length (split_py CHR ''/'' url) < 6
       \<or> \<not> str_in ''bdot10k'' url \<and> str_in ''bdoo'' url \<and> length (split_py CHR ''/'' url) < 5
       \<or> \<not> str_in ''bdot10k'' url \<and> \<not> str_in ''bdoo'' url \<and>
           str_in ''ZestawieniaZbiorczeEGiB'' url \<and> length (split_py CHR ''/'' url) < 5))"
  unfolding generate_filename_def baseline_total bind_exn_def index_py_def
  by (auto simp: Let_def)

theorem classify_raises_iff_witness:
  "generate_filename ''https://opendata.geoportal.gov.pl/bdot10k/Archiwum/2019/powiat.zip''
     \<noteq> Inl IndexError \<and>
   length (split_py CHR ''/'' ''https://opendata.geoportal.gov.pl/bdot10k/Archiwum/2019/powiat.zip'') = 7"
  using classify_raises_iff [of "''https://opendata.geoportal.gov.pl/bdot10k/Archiwum/2019/powiat.zip''"]
  by simp

subsection \<open>Rule order (C6)\<close>

text \<open>
  Claim C6 says every URL with both \<^verbatim>\<open>bdot10k\<close> and \<^verbatim>\<open>Archiwum\<close> takes the Archiwum
  branch. The PRG rule (and the Budynki3D rule) come first in the chain: this URL has both
  substrings and gets the \<^verbatim>\<open>PRG_\<close> prefix.
\<close>

theorem archiwum_loses_to_prg:
  "str_in ''bdot10k'' ''https://h/PRG/Archiwum/bdot10k/2020/x/f.zip'' \<and>
   str_in ''Archiwum'' ''https://h/PRG/Archiwum/bdot10k/2020/x/f.zip'' \<and>
   generate_filename ''https://h/PRG/Archiwum/bdot10k/2020/x/f.zip'' = Inr ''PRG_f.zip''"
  by (simp add: generate_filename_def baseline_def bind_exn_def last_py_def index_py_def
        replace_py_def)

text \<open>
  Claim C6, amended: for every URL that contains \<^verbatim>\<open>bdot10k\<close> and \<^verbatim>\<open>Archiwum\<close>, contains
  neither \<^verbatim>\<open>Budynki3D\<close> nor \<^verbatim>\<open>PRG\<close> and has at least 6 segments, the filename is
  \<^verbatim>\<open>archiwalne_bdot10k_\<close>, the segment at index 5, an underscore and the baseline; it is
  not the plain branch's \<^verbatim>\<open>bdot10k_\<close> plus baseline.
\<close>

theorem archiwum_branch:
  assumes "str_in ''bdot10k'' url" and "str_in ''Archiwum'' url"
    and "\<not> str_in ''Budynki3D'' url" and "\<not> str_in ''PRG'' url"
    and "5 < length (split_py CHR ''/'' url)"
  shows "\<exists>b. baseline url = Inr b \<and>
           generate_filename url =
             Inr (''archiwalne_bdot10k_'' @ split_py CHR ''/'' url ! 5 @ ''_'' @ b) \<and>
           generate_filename url \<noteq> Inr (''bdot10k_'' @ b)"
  using assms unfolding generate_filename_def baseline_total bind_exn_def index_py_def
  by (simp add: Let_def)

theorem archiwum_branch_witness:
  "generate_filename ''https://opendata.geoportal.gov.pl/bdot10k/Archiwum/2019/powiat.zip''
     = Inr ''archiwalne_bdot10k_2019_powiat.zip''"
  using archiwum_branch [of "''https://opendata.geoportal.gov.pl/bdot10k/Archiwum/2019/powiat.zip''"]
  by (simp add: baseline_def bind_exn_def last_py_def)

subsection \<open>Query strings (C7)\<close>

text \<open>
  Claim C7 speaks of every URL that contains \<^verbatim>\<open>?\<close>. The code looks for \<^verbatim>\<open>?\<close> in the last
  segment only, so a \<^verbatim>\<open>?\<close> before the last \<^verbatim>\<open>/\<close> changes nothing; and a rule that copies a
  URL segment into the prefix copies its \<^verbatim>\<open>=\<close> too.
\<close>

theorem query_outside_last_segment:
  "str_in ''?'' ''https://h/x?a=b/c'' \<and>
   generate_filename ''https://h/x?a=b/c'' = Inr ''c'' \<and>
   str_in ''?'' ''a/b/c/d/e=f/bdoo?x=1'' \<and>
   generate_filename ''a/b/c/d/e=f/bdoo?x=1'' = Inr ''bdoo_roke=f_x_1.zip''"
  by (simp add: generate_filename_def baseline_def bind_exn_def last_py_def index_py_def
        replace_py_def)

text \<open>
  Claim C7, amended: for every URL whose last \<^verbatim>\<open>/\<close>-segment contains \<^verbatim>\<open>?\<close>, a filename
  the classifier returns ends in \<^verbatim>\<open>.zip\<close>, and it contains \<^verbatim>\<open>=\<close> exactly when the rule
  that applies copies a URL segment with \<^verbatim>\<open>=\<close> into the prefix: the segment at index 6
  for Budynki3D on a URL of 9 segments, at index 5 for the Archiwum rule, at index 4 for
  the bdoo and ZestawieniaZbiorczeEGiB rules. Under every other rule, and under no rule,
  the filename has no \<^verbatim>\<open>=\<close>.
\<close>

theorem query_filename:
  assumes "str_in ''?'' (last (split_py CHR ''/'' url))" and "generate_filename url = Inr f"
  shows "suffix ''.zip'' f \<and>
    (CHR ''='' \<in> set f \<longleftrightarrow>
       (str_in ''Budynki3D'' url \<and> length (split_py CHR ''/'' url) = 9 \<and>
          CHR ''='' \<in> set (split_py CHR ''/'' url ! 6)) \<or>
       (\<not> str_in ''Budynki3D'' url \<and> \<not> str_in ''PRG'' url \<and>
          str_in ''bdot10k'' url \<and> str_in ''Archiwum'' url \<and>
          CHR ''='' \<in> set (split_py CHR ''/'' url ! 5)) \<or>
       (\<not> str_in ''Budynki3D'' url \<and> \<not> str_in ''PRG'' url \<and> \<not> str_in ''bdot10k'' url \<and>
          (str_in ''bdoo'' url \<or> str_in ''ZestawieniaZbiorczeEGiB'' url) \<and>
          CHR ''='' \<in> set (split_py CHR ''/'' url ! 4)))"
proof -
  have b: "baseline_name url =
      replace_py CHR ''='' CHR ''_'' (last (split_py CHR ''?'' (last (split_py CHR ''/'' url)))) @ ''.zip''"
    using assms(1) by (simp add: baseline_name_def Let_def)
  have s: "suffix ''.zip'' (baseline_name url)" unfolding b by (simp add: suffix_def)
  have n: "CHR ''='' \<notin> set (baseline_name url)" unfolding b using replace_py_no_eq by simp
  from classify_prefix[OF assms(2)] obtain p where p: "f = p @ baseline_name url" by blast
  have "suffix ''.zip'' f" unfolding p using s by (rule suffix_appendI)
  moreover have "CHR ''='' \<in> set f \<longleftrightarrow>
       (str_in ''Budynki3D'' url \<and> length (split_py CHR ''/'' url) = 9 \<and>
          CHR ''='' \<in> set (split_py CHR ''/'' url ! 6)) \<or>
       (\<not> str_in ''Budynki3D'' url \<and> \<not> str_in ''PRG'' url \<and>
          str_in ''bdot10k'' url \<and> str_in ''Archiwum'' url \<and>
          CHR ''='' \<in> set (split_py CHR ''/'' url ! 5)) \<or>
       (\<not> str_in ''Budynki3D'' url \<and> \<not> str_in ''PRG'' url \<and> \<not> str_in ''bdot10k'' url \<and>
          (str_in ''bdoo'' url \<or> str_in ''ZestawieniaZbiorczeEGiB'' url) \<and>
          CHR ''='' \<in> set (split_py CHR ''/'' url ! 4))"
    using assms(2) n unfolding generate_filename_def baseline_total bind_exn_def index_py_def
    by (auto simp: Let_def split: if_splits)
  ultimately show ?thesis by blast
qed

theorem query_filename_witness:
  "generate_filename ''https://h/a/2020/bdoo?id=7'' = Inr ''bdoo_rok2020_id_7.zip'' \<and>
   suffix ''.zip'' ''bdoo_rok2020_id_7.zip'' \<and> CHR ''='' \<notin> set ''bdoo_rok2020_id_7.zip''"
proof -
  have e: "generate_filename ''https://h/a/2020/bdoo?id=7'' = Inr ''bdoo_rok2020_id_7.zip''"
    by (simp add: generate_filename_def baseline_def bind_exn_def last_py_def index_py_def
          replace_py_def)
  have l: "str_in ''?'' (last (split_py CHR ''/'' ''https://h/a/2020/bdoo?id=7''))" by simp
  have q: "CHR ''='' \<notin> set (split_py CHR ''/'' ''https://h/a/2020/bdoo?id=7'' ! 4)" by simp
  have nb: "\<not> str_in ''Budynki3D'' ''https://h/a/2020/bdoo?id=7''"
    "\<not> str_in ''bdot10k'' ''https://h/a/2020/bdoo?id=7''" by simp_all
  from query_filename [OF l e] q nb
  have "suffix ''.zip'' ''bdoo_rok2020_id_7.zip''" "CHR ''='' \<notin> set ''bdoo_rok2020_id_7.zip''"
    by blast+
  with e show ?thesis by blast
qed

subsection \<open>The Budynki3D rule shadows the rest (C10)\<close>

text \<open>
  Claim C10: a URL that contains \<^verbatim>\<open>Budynki3D\<close>, neither \<^verbatim>\<open>LOD1\<close> nor \<^verbatim>\<open>LOD2\<close>, and
  does not have exactly 9 segments gets the baseline filename with no prefix, whatever
  other rule markers it contains.
\<close>

theorem budynki3d_without_lod:
  assumes "str_in ''Budynki3D'' url" and "\<not> str_in ''LOD1'' url" and "\<not> str_in ''LOD2'' url"
    and "length (split_py CHR ''/'' url) \<noteq> 9"
  shows "generate_filename url = baseline url \<and> (\<exists>b. baseline url = Inr b)"
  using assms unfolding generate_filename_def baseline_total bind_exn_def index_py_def
  by (simp add: Let_def)

theorem budynki3d_without_lod_witness:
  "generate_filename ''https://h/Budynki3D/PRG/osnowa/bdot10k.zip'' = Inr ''bdot10k.zip''"
  using budynki3d_without_lod [of "''https://h/Budynki3D/PRG/osnowa/bdot10k.zip''"]
  by (simp add: baseline_def bind_exn_def last_py_def)

section \<open>Properties of the request/retry engine\<close>

subsection \<open>One turn of the loop\<close>

lemma loop_exhausted:
  "\<not> attempt \<le> m \<Longrightarrow> get_request_loop m attempt w = (Inr (False, Przekroczono_maksymalna_liczbe_prob), w)"
  by (subst get_request_loop.simps) simp

lemma loop_retry:
  assumes "attempt \<le> m" "connected w (probes w)" "session_get w (gets w) = Inl ConnectionError"
  shows "get_request_loop m attempt w =
         get_request_loop m (attempt + 1) (w\<lparr>probes := Suc (probes w), gets := Suc (gets w), slept := slept w + 2\<rparr>)"
  using assms
  by (subst get_request_loop.simps)
     (simp add: is_internet_connected_def call_session_get_def sleep_def)

lemma loop_response:
  assumes "attempt \<le> m" "connected w (probes w)" "session_get w (gets w) = Inr resp"
  shows "get_request_loop m attempt w =
         (Inr (if status_code resp = 200 then (True, Body (resp_text resp)) else (False, Blad (status_code resp))),
          w\<lparr>probes := Suc (probes w), gets := Suc (gets w)\<rparr>)"
  using assms
  by (subst get_request_loop.simps)
     (simp add: is_internet_connected_def call_session_get_def)

lemma loop_retries:
  assumes "\<forall>k<n. connected w (probes w + k)"
      "\<forall>k<n. session_get w (gets w + k) = Inl ConnectionError"
      "attempt + int n \<le> m + 1"
  shows "get_request_loop m attempt w =
         get_request_loop m (attempt + int n)
           (w\<lparr>probes := probes w + n, gets := gets w + n, slept := slept w + 2 * n\<rparr>)"
  using assms
proof (induction n arbitrary: attempt w)
  case 0
  then show ?case by simp
next
  case (Suc n)
  let ?w1 = "w\<lparr>probes := Suc (probes w), gets := Suc (gets w), slept := slept w + 2\<rparr>"
  have a: "attempt \<le> m" using Suc.prems(3) by simp
  have c: "connected w (probes w)" using Suc.prems(1) by (metis add.right_neutral zero_less_Suc)
  have g: "session_get w (gets w) = Inl ConnectionError" using Suc.prems(2) by (metis add.right_neutral zero_less_Suc)
  have step: "get_request_loop m attempt w = get_request_loop m (attempt + 1) ?w1"
    by (rule loop_retry[OF a c g])
  have c1: "\<forall>k<n. connected ?w1 (probes ?w1 + k)" using Suc.prems(1) by auto
  have g1: "\<forall>k<n. session_get ?w1 (gets ?w1 + k) = Inl ConnectionError" using Suc.prems(2) by auto
  have b1: "(attempt + 1) + int n \<le> m + 1" using Suc.prems(3) by simp
  show ?case
    unfolding step Suc.IH[OF c1 g1 b1] by (simp add: add.commute add.left_commute)
qed

lemma loop_gets_bound:
  "gets (snd (get_request_loop m attempt w)) \<le> gets w + nat (m + 1 - attempt)"
proof (induction m attempt w rule: get_request_loop.induct)
  case (1 m attempt w)
  show ?case
  proof (cases "attempt \<le> m")
    case False
    then show ?thesis by (simp add: loop_exhausted)
  next
    case True
    show ?thesis
    proof (cases "connected w (probes w)")
      case False
      with True show ?thesis
        by (subst get_request_loop.simps) (simp add: is_internet_connected_def)
    next
      case up: True
      show ?thesis
      proof (cases "session_get w (gets w)")
        case (Inr resp)
        with True up show ?thesis
          by (simp add: loop_response)
      next
        case (Inl e)
        show ?thesis
        proof (cases "e = ConnectionError")
          case False
          with True up Inl show ?thesis
            by (subst get_request_loop.simps)
               (simp add: is_internet_connected_def call_session_get_def)
        next
          case ce: True
          let ?w1 = "w\<lparr>probes := Suc (probes w)\<rparr>"
          let ?w2 = "?w1\<lparr>gets := Suc (gets ?w1)\<rparr>"
          have ih: "gets (snd (get_request_loop m (attempt + 1) (sleep 2 ?w2)))
                    \<le> gets (sleep 2 ?w2) + nat (m + 1 - (attempt + 1))"
            using True up Inl ce
            by (intro "1.IH"[of "connected w (probes w)" ?w1 "Inl e" ?w2 e])
               (simp_all add: is_internet_connected_def call_session_get_def)
          have eq: "get_request_loop m attempt w = get_request_loop m (attempt + 1) (sleep 2 ?w2)"
            using True up Inl ce
            by (subst get_request_loop.simps)
               (simp add: is_internet_connected_def call_session_get_def)
          show ?thesis unfolding eq using ih True by (simp add: sleep_def)
        qed
      qed
    qed
  qed
qed


subsection \<open>The retry budget (C2)\<close>

text \<open>
  Claim C2: a call of \<^verbatim>\<open>get_request\<close> makes at most \<open>max_attempts + 1\<close> GET attempts.
  The budget is reached: when the prober reports connected and every attempt fails at
  connection level, exactly \<open>max_attempts + 1\<close> attempts are made before the call gives
  up. In particular, with \<open>max_attempts = 3\<close>, connection failures on the first three
  attempts and status 200 on the fourth (the prober passing each time), the call returns
  success with the body of the response, after four attempts and three sleeps of 2
  seconds.
\<close>

theorem get_request_budget:
  "gets (snd (get_request params url max_attempts w)) \<le> gets w + nat (max_attempts + 1)
   \<and> ((\<forall>k<nat (max_attempts + 1). connected w (probes w + k)) \<and>
        (\<forall>k<nat (max_attempts + 1). session_get w (gets w + k) = Inl ConnectionError) \<longrightarrow>
      get_request params url max_attempts w =
        (Inr (False, Przekroczono_maksymalna_liczbe_prob),
         w\<lparr>probes := probes w + nat (max_attempts + 1),
           gets := gets w + nat (max_attempts + 1),
           slept := slept w + 2 * nat (max_attempts + 1)\<rparr>))
   \<and> ((\<forall>k<4. connected w (probes w + k)) \<and>
        (\<forall>k<3. session_get w (gets w + k) = Inl ConnectionError) \<and>
        session_get w (gets w + 3) = Inr response \<and> status_code response = 200 \<longrightarrow>
      get_request params url 3 w =
        (Inr (True, Body (resp_text response)),
         w\<lparr>probes := probes w + 4, gets := gets w + 4, slept := slept w + 6\<rparr>))"
proof (intro conjI impI)
  show "gets (snd (get_request params url max_attempts w)) \<le> gets w + nat (max_attempts + 1)"
    using loop_gets_bound[of max_attempts 0 w] by (simp add: get_request_def)
next
  let ?n = "nat (max_attempts + 1)"
  let ?w = "w\<lparr>probes := probes w + ?n, gets := gets w + ?n, slept := slept w + 2 * ?n\<rparr>"
  assume h: "(\<forall>k<?n. connected w (probes w + k)) \<and>
        (\<forall>k<?n. session_get w (gets w + k) = Inl ConnectionError)"
  show "get_request params url max_attempts w =
          (Inr (False, Przekroczono_maksymalna_liczbe_prob), ?w)"
  proof (cases "0 \<le> max_attempts + 1")
    case True
    have "get_request_loop max_attempts 0 w = get_request_loop max_attempts (0 + int ?n) ?w"
      using h True by (intro loop_retries) auto
    also have "\<dots> = (Inr (False, Przekroczono_maksymalna_liczbe_prob), ?w)"
      using True by (intro loop_exhausted) simp
    finally show ?thesis by (simp add: get_request_def)
  next
    case False
    then show ?thesis by (simp add: get_request_def loop_exhausted)
  qed
next
  assume h: "(\<forall>k<4. connected w (probes w + k)) \<and>
        (\<forall>k<3. session_get w (gets w + k) = Inl ConnectionError) \<and>
        session_get w (gets w + 3) = Inr response \<and> status_code response = 200"
  let ?w3 = "w\<lparr>probes := probes w + 3, gets := gets w + 3, slept := slept w + 2 * 3\<rparr>"
  have "get_request_loop 3 0 w = get_request_loop 3 (0 + int 3) ?w3"
    using h by (intro loop_retries) auto
  also have "\<dots> = (Inr (True, Body (resp_text response)),
                    ?w3\<lparr>probes := Suc (probes ?w3), gets := Suc (gets ?w3)\<rparr>)"
    using h by (subst loop_response[where resp = response]) auto
  finally show "get_request params url 3 w =
        (Inr (True, Body (resp_text response)),
         w\<lparr>probes := probes w + 4, gets := gets w + 4, slept := slept w + 6\<rparr>)"
    by (simp add: get_request_def)
qed

theorem get_request_budget_witness:
  "fst (get_request [] ''https://h/wms'' 3
          (fresh_world (\<lambda>k. True)
             (\<lambda>k. if k < 3 then Inl ConnectionError else Inr (Response 200 Absent ''ok'' []))
             Map.empty (\<lambda>k. False)))
     = Inr (True, Body ''ok'') \<and>
   gets (snd (get_request [] ''https://h/wms'' 3
          (fresh_world (\<lambda>k. True)
             (\<lambda>k. if k < 3 then Inl ConnectionError else Inr (Response 200 Absent ''ok'' []))
             Map.empty (\<lambda>k. False)))) = 4 \<and>
   fst (get_request [] ''https://h/wms'' 3
          (fresh_world (\<lambda>k. True) (\<lambda>k. Inl ConnectionError) Map.empty (\<lambda>k. False)))
     = Inr (False, Przekroczono_maksymalna_liczbe_prob) \<and>
   gets (snd (get_request [] ''https://h/wms'' 3
          (fresh_world (\<lambda>k. True) (\<lambda>k. Inl ConnectionError) Map.empty (\<lambda>k. False)))) = 4"
  using get_request_budget [where params = "[]" and url = "''https://h/wms''"
          and max_attempts = 3 and response = "Response 200 Absent ''ok'' []"
          and w = "fresh_world (\<lambda>k. True)
             (\<lambda>k. if k < 3 then Inl ConnectionError else Inr (Response 200 Absent ''ok'' []))
             Map.empty (\<lambda>k. False)"]
        get_request_budget [where params = "[]" and url = "''https://h/wms''"
          and max_attempts = 3
          and w = "fresh_world (\<lambda>k. True) (\<lambda>k. Inl ConnectionError) Map.empty (\<lambda>k. False)"]
  by (simp add: fresh_world_def)

subsection \<open>No retry on a status error (C3)\<close>

text \<open>
  Claim C3: when the prober reports connected and the transport answers with a status
  other than 200, the call returns the failure naming that status after exactly one
  prober call and one GET, without sleeping. It is stated for \<open>max_attempts \<ge> 0\<close>, the
  calls in which the loop is entered, so that the prober and the transport are consulted
  at all; the same holds at any later turn of the loop, where such an answer ends the
  call at once.
\<close>

theorem get_request_status_error:
  assumes "connected w (probes w)"
    and "session_get w (gets w) = Inr response" and "status_code response \<noteq> 200"
  shows "(0 \<le> max_attempts \<longrightarrow>
            get_request params url max_attempts w =
              (Inr (False, Blad (status_code response)),
               w\<lparr>probes := Suc (probes w), gets := Suc (gets w)\<rparr>)) \<and>
         (attempt \<le> max_attempts \<longrightarrow>
            get_request_loop max_attempts attempt w =
              (Inr (False, Blad (status_code response)),
               w\<lparr>probes := Suc (probes w), gets := Suc (gets w)\<rparr>))"
  using assms by (simp add: get_request_def loop_response)

theorem get_request_status_error_witness:
  "fst (get_request [] ''https://h/wms'' 3
          (fresh_world (\<lambda>k. True) (\<lambda>k. Inr (Response 500 Absent ''oops'' [])) Map.empty
             (\<lambda>k. False)))
     = Inr (False, Blad 500) \<and>
   gets (snd (get_request [] ''https://h/wms'' 3
          (fresh_world (\<lambda>k. True) (\<lambda>k. Inr (Response 500 Absent ''oops'' [])) Map.empty
             (\<lambda>k. False)))) = 1 \<and>
   slept (snd (get_request [] ''https://h/wms'' 3
          (fresh_world (\<lambda>k. True) (\<lambda>k. Inr (Response 500 Absent ''oops'' [])) Map.empty
             (\<lambda>k. False)))) = 0"
  using get_request_status_error [where params = "[]" and url = "''https://h/wms''"
          and max_attempts = 3 and attempt = 0 and response = "Response 500 Absent ''oops'' []"
          and w = "fresh_world (\<lambda>k. True) (\<lambda>k. Inr (Response 500 Absent ''oops'' []))
                     Map.empty (\<lambda>k. False)"]
  by (simp add: fresh_world_def)

section \<open>Properties of the streaming downloader\<close>

subsection \<open>The chunk loop\<close>

lemma cleanup_file_gone: "files (cleanup_file path w) path = None"
  by (auto simp: cleanup_file_def)

lemma cleanup_file_probes: "probes (cleanup_file path w) = probes w"
  by (simp add: cleanup_file_def)

text \<open>The loop returns only to abort, and then the file is gone.\<close>

lemma iter_chunks_return:
  "iter_chunks path tot cb cc items i d w = (Return r, w') \<Longrightarrow>
     (r = (False, Pobieranie_anulowane) \<or> r = (False, Polaczenie_zostalo_przerwane)) \<and>
     files w' path = None"
proof (induction items arbitrary: i d w)
  case Nil
  then show ?case by simp
next
  case (Cons it items)
  show ?case
  proof (cases it)
    case (StreamRaises e)
    with Cons.prems show ?thesis by simp
  next
    case (Chunk c)
    with Cons.prems Cons.IH show ?thesis
      by (auto simp: Let_def is_internet_connected_def cleanup_file_gone
               split: if_splits prod.splits)
  qed
qed

text \<open>A prober call of the loop that answers disconnected ends the loop with cleanup.\<close>

lemma iter_chunks_disconnect:
  "iter_chunks path tot cb cc items i d w = (r, w') \<Longrightarrow> probes w \<le> k \<Longrightarrow> k < probes w' \<Longrightarrow>
     \<not> connected w k \<Longrightarrow>
     r = Return (False, Polaczenie_zostalo_przerwane) \<and> files w' path = None"
proof (induction items arbitrary: i d w)
  case Nil
  then show ?case by simp
next
  case (Cons it items)
  show ?case
  proof (cases it)
    case (StreamRaises e)
    with Cons.prems show ?thesis by simp
  next
    case (Chunk c)
    show ?thesis
    proof (cases "cancelled cc i")
      case True
      with Chunk Cons.prems show ?thesis by (auto simp: cleanup_file_probes)
    next
      case nc: False
      show ?thesis
      proof (cases "d mod 10000000 = 0")
        case False
        show ?thesis
        proof (cases "write_raises w i")
          case True
          with False nc Chunk Cons.prems show ?thesis by auto
        next
          case wr: False
          let ?w2 = "write_chunk path c w"
          let ?w3 = "if cb then ?w2\<lparr>progress := progress ?w2 @ [(d + length c, tot)]\<rparr> else ?w2"
          have eq: "iter_chunks path tot cb cc items (Suc i) (d + length c) ?w3 = (r, w')"
            using False nc wr Chunk Cons.prems(1) by (simp add: Let_def)
          show ?thesis
            using Cons.IH[OF eq] Cons.prems(2-4) by (simp add: write_chunk_def)
        qed
      next
        case True
        let ?w1 = "w\<lparr>probes := Suc (probes w)\<rparr>"
        show ?thesis
        proof (cases "connected w (probes w)")
          case False
          with True nc Chunk Cons.prems show ?thesis
            by (auto simp: is_internet_connected_def cleanup_file_gone cleanup_file_probes)
        next
          case up: True
          have kne: "k \<noteq> probes w" using up Cons.prems(4) by auto
          show ?thesis
          proof (cases "write_raises w i")
            case True
            with up kne \<open>d mod 10000000 = 0\<close> nc Chunk Cons.prems show ?thesis
              by (auto simp: is_internet_connected_def)
          next
            case wr: False
            let ?w2 = "write_chunk path c ?w1"
            let ?w3 = "if cb then ?w2\<lparr>progress := progress ?w2 @ [(d + length c, tot)]\<rparr> else ?w2"
            have eq: "iter_chunks path tot cb cc items (Suc i) (d + length c) ?w3 = (r, w')"
              using True up nc wr Chunk Cons.prems(1)
              by (simp add: Let_def is_internet_connected_def)
            from kne show ?thesis
              using Cons.IH[OF eq] Cons.prems(2-4) by (simp add: write_chunk_def)
          qed
        qed
      qed
    qed
  qed
qed

lemma length_filter_upt_Suc:
  "length (filter P [0..<Suc n]) =
     (if P 0 then 1 else 0) + length (filter (\<lambda>j. P (Suc j)) [0..<n])"
proof -
  have "[0..<Suc n] = 0 # map Suc [0..<n]"
    by (simp add: upt_conv_Cons map_Suc_upt del: upt_Suc)
  then show ?thesis by (simp add: filter_map o_def del: upt_Suc)
qed

text \<open>
  A loop over chunks that nothing interrupts: it calls the prober once for every chunk
  that starts at a multiple of 10,000,000 bytes, and writes every chunk.
\<close>

lemma iter_chunks_uninterrupted:
  assumes "\<forall>j<length cs. \<not> cancelled cc (i + j)" "\<forall>j<length cs. \<not> write_raises w (i + j)"
    "\<forall>k\<ge>probes w. connected w k" "files w path = Some old"
  shows "\<exists>w'. iter_chunks path tot cb cc (map Chunk cs) i d w = (Completed, w') \<and>
     probes w' = probes w +
        length (filter (\<lambda>j. (d + sum_list (map length (take j cs))) mod 10000000 = 0)
                  [0..<length cs]) \<and>
     files w' = (files w)(path \<mapsto> old @ concat cs) \<and>
     written w' = written w + length (concat cs) \<and> gets w' = gets w"
  using assms
proof (induction cs arbitrary: i d w old)
  case Nil
  then show ?case by auto
next
  case (Cons c cs)
  let ?P = "\<lambda>j. (d + sum_list (map length (take j (c # cs)))) mod 10000000 = 0"
  let ?Q = "\<lambda>j. (d + length c + sum_list (map length (take j cs))) mod 10000000 = 0"
  let ?w1 = "if d mod 10000000 = 0 then w\<lparr>probes := Suc (probes w)\<rparr> else w"
  let ?w2 = "write_chunk path c ?w1"
  let ?w3 = "if cb then ?w2\<lparr>progress := progress ?w2 @ [(d + length c, tot)]\<rparr> else ?w2"
  have nc: "\<not> cancelled cc i"
    using Cons.prems(1) by (metis add.right_neutral length_Cons zero_less_Suc)
  have wr: "\<not> write_raises w i"
    using Cons.prems(2) by (metis add.right_neutral length_Cons zero_less_Suc)
  have up: "connected w (probes w)" using Cons.prems(3) by simp
  have step: "iter_chunks path tot cb cc (map Chunk (c # cs)) i d w =
              iter_chunks path tot cb cc (map Chunk cs) (Suc i) (d + length c) ?w3"
    using nc wr up by (simp add: is_internet_connected_def Let_def)
  have a1: "\<forall>j<length cs. \<not> cancelled cc (Suc i + j)" using Cons.prems(1) by auto
  have a2: "\<forall>j<length cs. \<not> write_raises ?w3 (Suc i + j)"
    using Cons.prems(2) by (auto simp: write_chunk_def)
  have a3: "\<forall>k\<ge>probes ?w3. connected ?w3 k"
    using Cons.prems(3) by (auto simp: write_chunk_def)
  have a4: "files ?w3 path = Some (old @ c)" using Cons.prems(4) by (auto simp: write_chunk_def)
  from Cons.IH[OF a1 a2 a3 a4, of "d + length c"] obtain w' where
    r: "iter_chunks path tot cb cc (map Chunk cs) (Suc i) (d + length c) ?w3 = (Completed, w')"
    and p: "probes w' = probes ?w3 + length (filter ?Q [0..<length cs])"
    and f: "files w' = (files ?w3)(path \<mapsto> (old @ c) @ concat cs)"
    and wn: "written w' = written ?w3 + length (concat cs)" and g: "gets w' = gets ?w3"
    by blast
  have cnt: "length (filter ?P [0..<length (c # cs)]) =
     (if d mod 10000000 = 0 then 1 else 0) + length (filter ?Q [0..<length cs])"
    using length_filter_upt_Suc[of ?P "length cs"] by (simp add: add.assoc del: upt_Suc)
  have "probes w' = probes w + length (filter ?P [0..<length (c # cs)])"
    unfolding p cnt by (simp add: write_chunk_def)
  moreover have "files w' = (files w)(path \<mapsto> old @ concat (c # cs))"
    unfolding f using Cons.prems(4) by (auto simp: write_chunk_def)
  moreover have "written w' = written w + length (concat (c # cs))"
    unfolding wn by (simp add: write_chunk_def)
  moreover have "gets w' = gets w" unfolding g by (simp add: write_chunk_def)
  moreover have "iter_chunks path tot cb cc (map Chunk (c # cs)) i d w = (Completed, w')"
    unfolding step by (rule r)
  ultimately show ?case by blast
qed

subsection \<open>The try block and its handlers\<close>

text \<open>The ways through the try block, by what the transport and the file system answer.\<close>

lemma download_try_cases:
  obtains
    (get_raises) e where "session_get w (gets w) = Inl e"
      and "download_try path cb cc w = (Inl e, w\<lparr>gets := Suc (gets w)\<rparr>)"
  | (not_found) response where "session_get w (gets w) = Inr response"
      and "status_code response = 404"
      and "download_try path cb cc w = (Inr (False, Plik_nie_istnieje), w\<lparr>gets := Suc (gets w)\<rparr>)"
  | (setup_raises) response e where "session_get w (gets w) = Inr response"
      and "status_code response \<noteq> 404"
      and "content_length response = BadText \<or> makedirs_raises w \<or> open_raises w"
      and "fst (download_try path cb cc w) = Inl e"
      and "probes (snd (download_try path cb cc w)) = probes w"
  | (stream) response tot where "session_get w (gets w) = Inr response"
      and "status_code response \<noteq> 404" and "total_size_of (content_length response) = Inr tot"
      and "\<not> makedirs_raises w" and "\<not> open_raises w"
      and "download_try path cb cc w =
             (case iter_chunks path tot cb cc (iter_content response) 0 0
                     (w\<lparr>gets := Suc (gets w), files := (files w)(path \<mapsto> [])\<rparr>) of
                (Completed, w3) \<Rightarrow> (Inr (True, Path path), w3)
              | (Return r, w3) \<Rightarrow> (Inr r, w3)
              | (Raise e, w3) \<Rightarrow> (Inl e, w3))"
proof (cases "session_get w (gets w)")
  case (Inl e)
  then show ?thesis by (intro get_raises[of e]) (simp_all add: download_try_def call_session_get_def)
next
  case (Inr response)
  let ?w2 = "cleanup_file path (w\<lparr>gets := Suc (gets w)\<rparr>)"
  have w3: "?w2\<lparr>files := (files ?w2)(path \<mapsto> [])\<rparr> =
            w\<lparr>gets := Suc (gets w), files := (files w)(path \<mapsto> [])\<rparr>"
    by (simp add: cleanup_file_def)
  have m: "makedirs_raises ?w2 = makedirs_raises w" "open_raises ?w2 = open_raises w"
    "probes ?w2 = probes w"
    by (simp_all add: cleanup_file_def)
  show ?thesis
  proof (cases "status_code response = 404")
    case True
    with Inr show ?thesis
      by (intro not_found[of response]) (simp_all add: download_try_def call_session_get_def)
  next
    case nf: False
    show ?thesis
    proof (cases "total_size_of (content_length response)")
      case (Inl e)
      then have "content_length response = BadText"
        by (simp add: total_size_of_def split: header.splits)
      with Inr nf Inl show ?thesis
        by (intro setup_raises[of response e])
           (simp_all add: download_try_def call_session_get_def)
    next
      case tot: (Inr tot)
      show ?thesis
      proof (cases "makedirs_raises w \<or> open_raises w")
        case True
        with Inr nf tot m show ?thesis
          by (intro setup_raises[of response IOError])
             (auto simp: download_try_def call_session_get_def Let_def)
      next
        case False
        with Inr nf tot m show ?thesis
          by (intro stream[of response tot])
             (simp_all add: download_try_def call_session_get_def Let_def w3)
      qed
    qed
  qed
qed

lemma download_try_return:
  assumes "download_try path cb cc w = (Inr (False, m), w1)"
  shows "(m = Plik_nie_istnieje \<and> files w1 = files w) \<or>
         ((m = Pobieranie_anulowane \<or> m = Polaczenie_zostalo_przerwane) \<and> files w1 path = None)"
proof (cases rule: download_try_cases[of w path cb cc])
  case (get_raises e)
  with assms show ?thesis by simp
next
  case (not_found response)
  with assms show ?thesis by auto
next
  case (setup_raises response e)
  with assms show ?thesis by simp
next
  case (stream response tot)
  let ?w3 = "w\<lparr>gets := Suc (gets w), files := (files w)(path \<mapsto> [])\<rparr>"
  obtain y w4 where it: "iter_chunks path tot cb cc (iter_content response) 0 0 ?w3 = (y, w4)"
    by (cases "iter_chunks path tot cb cc (iter_content response) 0 0 ?w3")
  with stream(6) assms have "y = Return (False, m)" "w4 = w1"
    by (cases y; simp)+
  with iter_chunks_return[of path tot cb cc "iter_content response" 0 0 ?w3 "(False, m)" w1] it
  show ?thesis by auto
qed

lemma download_try_probes:
  assumes "download_try path cb cc w = (x, w1)" "probes w \<le> k" "k < probes w1" "\<not> connected w k"
  shows "x = Inr (False, Polaczenie_zostalo_przerwane) \<and> files w1 path = None"
proof (cases rule: download_try_cases[of w path cb cc])
  case (get_raises e)
  with assms show ?thesis by auto
next
  case (not_found response)
  with assms show ?thesis by auto
next
  case (setup_raises response e)
  with assms show ?thesis by auto
next
  case (stream response tot)
  let ?w3 = "w\<lparr>gets := Suc (gets w), files := (files w)(path \<mapsto> [])\<rparr>"
  obtain y w4 where it: "iter_chunks path tot cb cc (iter_content response) 0 0 ?w3 = (y, w4)"
    by (cases "iter_chunks path tot cb cc (iter_content response) 0 0 ?w3")
  with stream(6) assms(1) have w: "w1 = w4"
    and xy: "x = (case y of Completed \<Rightarrow> Inr (True, Path path) | Return r \<Rightarrow> Inr r | Raise e \<Rightarrow> Inl e)"
    by (cases y; simp)+
  from iter_chunks_disconnect[OF it, of k] assms(2-4) w
  have "y = Return (False, Polaczenie_zostalo_przerwane)" "files w4 path = None" by auto
  with w xy show ?thesis by simp
qed

lemma download_file_probes:
  assumes "generate_filename url = Inr file_name"
    and "download_file url dest_folder cb cc w = (r, w')" "probes w \<le> k" "k < probes w'"
    and "\<not> connected w k"
  shows "r = Inr (False, Polaczenie_zostalo_przerwane) \<and>
         files w' (os_path_join dest_folder file_name) = None"
proof -
  let ?path = "os_path_join dest_folder file_name"
  obtain x w1 where t: "download_try ?path cb cc w = (x, w1)" by (cases "download_try ?path cb cc w")
  have "probes w' = probes w1"
    using assms(1,2) t
    by (auto simp: download_file_def Let_def cleanup_file_probes split: sum.splits if_splits)
  with download_try_probes[OF t assms(3) _ assms(5)] assms(4)
  have "x = Inr (False, Polaczenie_zostalo_przerwane)" "files w1 ?path = None" by auto
  with assms(1,2) t show ?thesis by (auto simp: download_file_def)
qed

lemma download_uninterrupted:
  assumes "generate_filename url = Inr file_name"
    and "session_get w (gets w) = Inr response" "status_code response \<noteq> 404"
    and "content_length response \<noteq> BadText" "\<not> makedirs_raises w" "\<not> open_raises w"
    and "iter_content response = map Chunk chunks"
    and "\<forall>i<length chunks. \<not> cancelled cc i" "\<forall>i<length chunks. \<not> write_raises w i"
    and "\<forall>k\<ge>probes w. connected w k"
  shows "\<exists>w'. download_file url dest_folder cb cc w =
            (Inr (True, Path (os_path_join dest_folder file_name)), w') \<and>
     probes w' = probes w +
        length (filter (\<lambda>i. sum_list (map length (take i chunks)) mod 10000000 = 0)
                  [0..<length chunks]) \<and>
     files w' = (files w)(os_path_join dest_folder file_name \<mapsto> concat chunks) \<and>
     written w' = written w + length (concat chunks) \<and> gets w' = Suc (gets w)"
proof (cases rule: download_try_cases[of w "os_path_join dest_folder file_name" cb cc])
  case (get_raises e)
  with assms(2) show ?thesis by simp
next
  case (not_found r)
  with assms(2,3) show ?thesis by simp
next
  case (setup_raises r e)
  with assms(2,4,5,6) show ?thesis by simp
next
  case (stream r tot)
  let ?path = "os_path_join dest_folder file_name"
  let ?w3 = "w\<lparr>gets := Suc (gets w), files := (files w)(?path \<mapsto> [])\<rparr>"
  have rr: "r = response" using stream(1) assms(2) by simp
  have a1: "\<forall>j<length chunks. \<not> cancelled cc (0 + j)" using assms(8) by simp
  have a2: "\<forall>j<length chunks. \<not> write_raises ?w3 (0 + j)" using assms(9) by simp
  have a3: "\<forall>k\<ge>probes ?w3. connected ?w3 k" using assms(10) by simp
  have a4: "files ?w3 ?path = Some []" by simp
  from iter_chunks_uninterrupted[OF a1 a2 a3 a4, of tot cb 0] obtain w' where
    it: "iter_chunks ?path tot cb cc (map Chunk chunks) 0 0 ?w3 = (Completed, w')"
    and p: "probes w' = probes ?w3 +
        length (filter (\<lambda>j. (0 + sum_list (map length (take j chunks))) mod 10000000 = 0)
                  [0..<length chunks])"
    and f: "files w' = (files ?w3)(?path \<mapsto> [] @ concat chunks)"
    and wn: "written w' = written ?w3 + length (concat chunks)" and g: "gets w' = gets ?w3"
    by blast
  have t: "download_try ?path cb cc w = (Inr (True, Path ?path), w')"
    unfolding stream(6) rr assms(7) it by simp
  have "download_file url dest_folder cb cc w = (Inr (True, Path ?path), w')"
    using assms(1) t by (simp add: download_file_def)
  moreover have "probes w' = probes w +
        length (filter (\<lambda>i. sum_list (map length (take i chunks)) mod 10000000 = 0)
                  [0..<length chunks])"
    unfolding p by simp
  moreover have "files w' = (files w)(?path \<mapsto> concat chunks)"
    unfolding f by simp
  moreover have "written w' = written w + length (concat chunks)"
    unfolding wn by simp
  moreover have "gets w' = Suc (gets w)" unfolding g by simp
  ultimately show ?thesis by blast
qed

subsection \<open>Full chunks against the 10,000,000-byte test\<close>

text \<open>
  \<open>8192 j\<close> is a multiple of 10,000,000 only when \<open>j\<close> is a multiple of 78125: a stream
  of full 8 KiB chunks meets the test at byte 0 and next at byte 640,000,000.
\<close>

lemma multiple_8192:
  assumes "(j::nat) < 78125"
  shows "(8192 * j) mod 10000000 = 0 \<longleftrightarrow> j = 0"
proof
  assume "(8192 * j) mod 10000000 = 0"
  then have "(128 * 78125::nat) dvd 128 * (64 * j)" by (simp add: mod_eq_0_iff_dvd)
  then have "(78125::nat) dvd 64 * j"
    by (rule iffD1[OF nat_mult_dvd_cancel1, rotated]) simp
  moreover have "coprime (78125::nat) 64" by (simp add: coprime_iff_gcd_eq_1 gcd_nat.simps)
  ultimately have "(78125::nat) dvd j" by (simp add: coprime_dvd_mult_right_iff)
  with assms show "j = 0" by (auto dest: dvd_imp_le)
qed simp

lemma filter_eq_0_upt: "filter (\<lambda>j. j = 0) [0..<Suc n] = [0::nat]"
  by (induction n) auto

lemma full_chunks_one_probe:
  assumes "n \<le> 78125" "0 < n"
  shows "length (filter (\<lambda>i. sum_list (map length (take i (replicate n (replicate 8192 c)))) mod 10000000 = 0)
            [0..<length (replicate n (replicate 8192 c))]) = 1"
proof -
  have "filter (\<lambda>i. sum_list (map length (take i (replicate n (replicate 8192 c)))) mod 10000000 = 0) [0..<n]
        = filter (\<lambda>j. j = 0) [0..<n]"
  proof (rule filter_cong[OF refl])
    fix i assume "i \<in> set [0..<n]"
    then have i: "i < n" by simp
    then have "sum_list (map length (take i (replicate n (replicate 8192 c)))) = 8192 * i"
      by (simp add: min_def sum_list_replicate)
    moreover have "i < 78125" using i assms(1) by simp
    ultimately show "(sum_list (map length (take i (replicate n (replicate 8192 c)))) mod 10000000 = 0) = (i = 0)"
      using multiple_8192[of i] by simp
  qed
  moreover obtain m where "n = Suc m" using assms(2) by (cases n) auto
  ultimately show ?thesis using filter_eq_0_upt[of m] by simp
qed

lemma length_concat_replicate: "length (concat (replicate n xs)) = n * length xs"
  by (induction n) auto

lemma classify_f_zip: "generate_filename ''https://h/f.zip'' = Inr ''f.zip''"
  by (simp add: generate_filename_def baseline_def bind_exn_def last_py_def index_py_def
        replace_py_def)

lemma join_d_f_zip: "os_path_join ''d'' ''f.zip'' = ''d/f.zip''"
  by (simp add: os_path_join_def)

subsection \<open>Failure and the destination file (C1)\<close>

text \<open>
  Claim C1 says no failure outcome leaves a file at the destination. A 404 answer returns
  before the file system is touched, so a file that was at the destination before the
  call is still there; and the handler of \<^verbatim>\<open>IOError\<close> returns without cleanup, so a write
  that fails on the second chunk leaves the first chunk on disk.
\<close>

theorem download_failure_with_file_left:
  "(case download_file ''https://h/f.zip'' ''d'' False None
           (fresh_world (\<lambda>k. True) (\<lambda>k. Inr (Response 404 Absent [] []))
              [''d/f.zip'' \<mapsto> ''old''] (\<lambda>k. False)) of
      (r, w') \<Rightarrow> r = Inr (False, Plik_nie_istnieje) \<and> files w' ''d/f.zip'' = Some ''old'') \<and>
   (case download_file ''https://h/f.zip'' ''d'' False None
           (fresh_world (\<lambda>k. True)
              (\<lambda>k. Inr (Response 200 Absent [] [Chunk ''ab'', Chunk ''cd'']))
              Map.empty (\<lambda>k. k = 1)) of
      (r, w') \<Rightarrow> r = Inr (False, Blad_zapisu_pliku) \<and> files w' ''d/f.zip'' = Some ''ab'')"
  by (simp add: download_file_def download_try_def call_session_get_def cleanup_file_def
        cancelled_def is_internet_connected_def write_chunk_def total_size_of_def
        fresh_world_def Let_def
        classify_f_zip join_d_f_zip)

text \<open>
  Claim C1, amended: a failure outcome of \<^verbatim>\<open>download_file\<close> carries one of four
  reasons. With "download cancelled" or "connection interrupted" (cancellation, a
  disconnect reported by the prober, a \<^verbatim>\<open>ConnectionError\<close> or a
  \<^verbatim>\<open>ChunkedEncodingError\<close> of the transport) no file exists at the destination path when
  the call returns. With "file does not exist" (404) the files are what they were before
  the call. Nothing is stated for "file write error".
\<close>

theorem download_failure_cleanup:
  assumes "generate_filename url = Inr file_name"
    and "download_file url dest_folder progress_callback cancel_check w = (Inr (False, reason), w')"
  shows "(reason = Plik_nie_istnieje \<and> files w' = files w) \<or>
         ((reason = Pobieranie_anulowane \<or> reason = Polaczenie_zostalo_przerwane)
            \<and> files w' (os_path_join dest_folder file_name) = None) \<or>
         reason = Blad_zapisu_pliku"
proof -
  let ?path = "os_path_join dest_folder file_name"
  obtain x w1 where t: "download_try ?path progress_callback cancel_check w = (x, w1)"
    by (cases "download_try ?path progress_callback cancel_check w")
  show ?thesis
  proof (cases x)
    case (Inr r)
    with t assms have "r = (False, reason)" "w' = w1" by (simp_all add: download_file_def)
    with t Inr download_try_return[of ?path progress_callback cancel_check w reason w1]
    show ?thesis by auto
  next
    case (Inl e)
    with t assms show ?thesis
      by (auto simp: download_file_def cleanup_file_gone split: if_splits)
  qed
qed

theorem download_failure_cleanup_witness:
  "fst (download_file ''https://h/f.zip'' ''d'' False (Some (\<lambda>k. k = 1))
          (fresh_world (\<lambda>k. True)
             (\<lambda>k. Inr (Response 200 Absent [] [Chunk ''ab'', Chunk ''cd'']))
             Map.empty (\<lambda>k. False)))
     = Inr (False, Pobieranie_anulowane) \<and>
   files (snd (download_file ''https://h/f.zip'' ''d'' False (Some (\<lambda>k. k = 1))
          (fresh_world (\<lambda>k. True)
             (\<lambda>k. Inr (Response 200 Absent [] [Chunk ''ab'', Chunk ''cd'']))
             Map.empty (\<lambda>k. False)))) ''d/f.zip'' = None"
proof -
  let ?w = "fresh_world (\<lambda>k. True)
             (\<lambda>k. Inr (Response 200 Absent [] [Chunk ''ab'', Chunk ''cd'']))
             Map.empty (\<lambda>k. False)"
  let ?run = "download_file ''https://h/f.zip'' ''d'' False (Some (\<lambda>k. k = 1)) ?w"
  have f: "fst ?run = Inr (False, Pobieranie_anulowane)"
    by (simp add: download_file_def download_try_def call_session_get_def cleanup_file_def
          cancelled_def is_internet_connected_def write_chunk_def total_size_of_def
          fresh_world_def Let_def
          classify_f_zip join_d_f_zip)
  then have r: "?run = (Inr (False, Pobieranie_anulowane), snd ?run)"
    by (metis prod.collapse)
  from download_failure_cleanup [OF classify_f_zip r] f show ?thesis
    by (simp add: join_d_f_zip)
qed

subsection \<open>Cancellation from the start (C4)\<close>

text \<open>
  Claim C4 includes a body of zero chunks. The predicate is polled once per chunk, inside
  the loop: with no chunk it is never asked, and the call succeeds, leaving an empty
  file.
\<close>

theorem cancel_without_chunks_succeeds:
  "(case download_file ''https://h/f.zip'' ''d'' False (Some (\<lambda>k. True))
           (fresh_world (\<lambda>k. True) (\<lambda>k. Inr (Response 200 Absent [] []))
              Map.empty (\<lambda>k. False)) of
      (r, w') \<Rightarrow> r = Inr (True, Path ''d/f.zip'') \<and> files w' ''d/f.zip'' = Some [])"
  by (simp add: download_file_def download_try_def call_session_get_def cleanup_file_def
        total_size_of_def fresh_world_def Let_def classify_f_zip join_d_f_zip)

text \<open>
  Claim C4, amended: when the predicate answers true at the first chunk, the response
  has a status other than 404 and a body that yields at least one chunk, and the setup
  succeeds (the \<^verbatim>\<open>content-length\<close> header parses or is absent, the directory and the file
  can be created), the call returns "download cancelled"; no byte has been written, no
  prober call and no progress callback made, and nothing is at the destination path. The
  world differs from the initial one by the GET made and the path removed.
\<close>

theorem cancelled_from_start:
  assumes "generate_filename url = Inr file_name"
    and "session_get w (gets w) = Inr response" and "status_code response \<noteq> 404"
    and "content_length response \<noteq> BadText" and "\<not> makedirs_raises w" and "\<not> open_raises w"
    and "iter_content response = Chunk chunk # rest"
    and "cancel 0"
  shows "download_file url dest_folder progress_callback (Some cancel) w =
           (Inr (False, Pobieranie_anulowane),
            w\<lparr>gets := Suc (gets w),
              files := (files w)(os_path_join dest_folder file_name := None)\<rparr>)"
  using assms
  by (cases "content_length response")
     (auto simp: download_file_def download_try_def call_session_get_def cleanup_file_def
                 cancelled_def total_size_of_def Let_def)

theorem cancelled_from_start_witness:
  "(case download_file ''https://h/f.zip'' ''d'' True (Some (\<lambda>k. True))
           (fresh_world (\<lambda>k. True)
              (\<lambda>k. Inr (Response 200 (IntText 4) [] [Chunk ''ab'', Chunk ''cd'']))
              [''d/f.zip'' \<mapsto> ''old''] (\<lambda>k. False)) of
      (r, w') \<Rightarrow> r = Inr (False, Pobieranie_anulowane) \<and> files w' ''d/f.zip'' = None \<and>
                 written w' = 0 \<and> probes w' = 0 \<and> progress w' = [] \<and> gets w' = 1)"
  using cancelled_from_start [where url = "''https://h/f.zip''" and file_name = "''f.zip''"
          and dest_folder = "''d''" and progress_callback = True and cancel = "\<lambda>k. True"
          and response = "Response 200 (IntText 4) [] [Chunk ''ab'', Chunk ''cd'']"
          and chunk = "''ab''" and rest = "[Chunk ''cd'']"
          and w = "fresh_world (\<lambda>k. True)
              (\<lambda>k. Inr (Response 200 (IntText 4) [] [Chunk ''ab'', Chunk ''cd'']))
              [''d/f.zip'' \<mapsto> ''old''] (\<lambda>k. False)"]
  by (simp add: classify_f_zip join_d_f_zip fresh_world_def)

subsection \<open>The connectivity re-check during a download (C8)\<close>

text \<open>
  Claim C8: during a streaming download the prober is re-invoked when the running byte
  count is a multiple of 10,000,000, so that the probe recurs at 10 MB intervals
  throughout the transfer. The code tests \<^verbatim>\<open>downloaded % 10000000 == 0\<close> against a count
  that advances in steps of a chunk, so it meets a multiple only where a chunk starts
  exactly on one: a transfer of 2500 full chunks of 8192 bytes (20,480,000 bytes, past
  two 10 MB marks) succeeds with a single prober call, the one before the first chunk.
\<close>

theorem full_chunks_probe_once:
  "(case download_file ''https://h/f.zip'' ''d'' False None
           (fresh_world (\<lambda>k. True)
              (\<lambda>k. Inr (Response 200 (IntText 20480000) []
                          (map Chunk (replicate 2500 (replicate 8192 CHR ''x'')))))
              Map.empty (\<lambda>k. False)) of
      (r, w') \<Rightarrow> r = Inr (True, Path ''d/f.zip'') \<and> written w' = 20480000 \<and> probes w' = 1)"
proof -
  let ?chunks = "replicate 2500 (replicate 8192 CHR ''x'')"
  let ?response = "Response 200 (IntText 20480000) [] (map Chunk ?chunks)"
  let ?w = "fresh_world (\<lambda>k. True) (\<lambda>k. Inr ?response) Map.empty (\<lambda>k. False)"
  have "\<exists>w'. download_file ''https://h/f.zip'' ''d'' False None ?w =
            (Inr (True, Path (os_path_join ''d'' ''f.zip'')), w') \<and>
     probes w' = probes ?w +
        length (filter (\<lambda>i. sum_list (map length (take i ?chunks)) mod 10000000 = 0)
                  [0..<length ?chunks]) \<and>
     files w' = (files ?w)(os_path_join ''d'' ''f.zip'' \<mapsto> concat ?chunks) \<and>
     written w' = written ?w + length (concat ?chunks) \<and> gets w' = Suc (gets ?w)"
    by (rule download_uninterrupted [where response = ?response])
       (simp_all add: classify_f_zip fresh_world_def cancelled_def)
  then obtain w' where
    r: "download_file ''https://h/f.zip'' ''d'' False None ?w =
          (Inr (True, Path (os_path_join ''d'' ''f.zip'')), w')"
    and p: "probes w' = probes ?w +
        length (filter (\<lambda>i. sum_list (map length (take i ?chunks)) mod 10000000 = 0)
                  [0..<length ?chunks])"
    and wn: "written w' = written ?w + length (concat ?chunks)"
    by blast
  have "length (filter (\<lambda>i. sum_list (map length (take i ?chunks)) mod 10000000 = 0)
                  [0..<length ?chunks]) = 1"
    by (rule full_chunks_one_probe) simp_all
  then have "probes w' = 1"
    unfolding p by (simp add: fresh_world_def)
  moreover have "written w' = 20480000"
    unfolding wn length_concat_replicate by (simp add: fresh_world_def)
  ultimately show ?thesis unfolding r by (simp add: join_d_f_zip)
qed

section \<open>Properties of the layer extractor\<close>

subsection \<open>The keys of an insertion-ordered dictionary\<close>

lemma filter_upt_Suc:
  "filter P [0..<Suc n] = (if P 0 then [0] else []) @ map Suc (filter (\<lambda>j. P (Suc j)) [0..<n])"
proof -
  have "[0..<Suc n] = 0 # map Suc [0..<n]"
    by (simp add: upt_conv_Cons map_Suc_upt del: upt_Suc)
  then show ?thesis by (simp add: filter_map o_def del: upt_Suc)
qed

text \<open>
  With \<open>keys\<close> already in the dictionary, the new keys are the values that are neither
  in \<open>keys\<close> nor earlier in the list.
\<close>

lemma fromkeys_eq:
  "fromkeys keys xs =
     keys @ map (\<lambda>i. xs ! i)
              (filter (\<lambda>i. xs ! i \<notin> set keys \<union> set (take i xs)) [0..<length xs])"
proof (induction xs arbitrary: keys)
  case Nil
  then show ?case by simp
next
  case (Cons x xs)
  have f: "filter (\<lambda>i. (x # xs) ! i \<notin> set keys \<union> set (take i (x # xs))) [0..<length (x # xs)] =
        (if x \<notin> set keys then [0] else []) @
        map Suc (filter (\<lambda>j. xs ! j \<notin> set (keys @ [x]) \<union> set (take j xs)) [0..<length xs])"
    using filter_upt_Suc[of "\<lambda>i. (x # xs) ! i \<notin> set keys \<union> set (take i (x # xs))" "length xs"]
    by (simp del: upt_Suc)
  show ?case
  proof (cases "x \<in> set keys")
    case True
    then have "set (keys @ [x]) = set keys" by auto
    with True show ?thesis unfolding f by (simp add: Cons.IH o_def del: upt_Suc)
  next
    case False
    then show ?thesis unfolding f by (simp add: Cons.IH o_def del: upt_Suc)
  qed
qed

lemma dict_fromkeys_first: "dict_fromkeys xs = first_occurrences xs"
  by (simp add: dict_fromkeys_def first_occurrences_def fromkeys_eq)

lemma fromkeys_set: "set (fromkeys keys xs) = set keys \<union> set xs"
  by (induction xs arbitrary: keys) auto

lemma fromkeys_distinct: "distinct keys \<Longrightarrow> distinct (fromkeys keys xs)"
  by (induction xs arbitrary: keys) auto

lemma truthy_text_nonempty: "[] \<notin> set (truthy_text e)"
  by (simp add: truthy_text_def split: option.splits)

lemma collect_layers_nonempty: "[] \<notin> set (collect_layers ns_uri root)"
  by (auto simp: collect_layers_def findall_layer_names_def truthy_text_nonempty
           split: option.splits)

subsection \<open>The queries follow the document\<close>

lemma subseq_concat_map:
  "(\<And>c. c \<in> set cs \<Longrightarrow> subseq (f c) (g c)) \<Longrightarrow>
     subseq (concat (map f cs)) (concat (map g cs))"
  by (induction cs) (auto intro: list_emb_append_mono)

text \<open>
  The XPath query returns \<^verbatim>\<open>Name\<close> elements only, each node at most once and in the
  order of the document.
\<close>

lemma xpath_layer_names_document_order:
  "subseq (xpath_layer_names uri ancestors e) (e # descendants e)"
proof (induction e arbitrary: ancestors)
  case (Element ns t x cs)
  have "subseq (concat (map (xpath_layer_names uri (Element ns t x cs # ancestors)) cs))
               (concat (map (\<lambda>c. c # descendants c) cs))"
    by (rule subseq_concat_map) (rule Element.IH)
  then show ?case by (auto simp del: is_el_def)
qed

lemma xpath_layer_names_are_names:
  "n \<in> set (xpath_layer_names uri ancestors e) \<Longrightarrow> is_el (Some uri) ''Name'' n"
proof (induction e arbitrary: ancestors)
  case (Element ns t x cs)
  then show ?case by (auto split: if_splits)
qed

subsection \<open>The queries by positions\<close>

lemma positions_nodes:
  "map (node_at e) (positions e) = map Some (e # descendants e)"
  "el_children E = pre @ cs \<Longrightarrow> length pre = i \<Longrightarrow>
     map (node_at E) (positions_from i cs) = map Some (concat (map (\<lambda>c. c # descendants c) cs))"
proof (induction e and i cs arbitrary: and E pre rule: positions_positions_from.induct)
  case (1 ns t x cs)
  from "1.IH"[of "Element ns t x cs" "[]"] show ?case by simp
next
  case (2 i)
  show ?case by simp
next
  case (3 i c cs)
  have c: "el_children E ! i = c" "i < length (el_children E)" using "3.prems" by auto
  have "map (node_at E) (map ((#) i) (positions c)) = map (node_at c) (positions c)"
    using c by (simp add: o_def)
  moreover have "map (node_at E) (positions_from (Suc i) cs) =
                 map Some (concat (map (\<lambda>c. c # descendants c) cs))"
    using "3.IH"(2)[of E "pre @ [c]"] "3.prems" by simp
  ultimately show ?case using "3.IH"(1) by simp
qed

lemma positions_from_nonempty: "p \<in> set (positions_from i cs) \<Longrightarrow> p \<noteq> []"
  by (induction cs arbitrary: i) auto

lemma select_by_position:
  assumes "map (node_at root) ps = map Some ds"
  shows "concat (map (\<lambda>q. case node_at root q of None \<Rightarrow> [] | Some l \<Rightarrow> g l)
                     (filter (\<lambda>q. case node_at root q of None \<Rightarrow> False | Some e \<Rightarrow> P e) ps))
         = concat (map g (filter P ds))"
  using assms
proof (induction ps arbitrary: ds)
  case Nil
  then show ?case by simp
next
  case (Cons q ps)
  then obtain d ds' where "ds = d # ds'" "node_at root q = Some d"
    "map (node_at root) ps = map Some ds'" by (cases ds) auto
  with Cons.IH[of ds'] show ?case by simp
qed

lemma findall_layer_names_positions: "findall_layer_names root = first_name_values root"
proof (cases root)
  case (Element ns t x cs)
  let ?ps = "positions_from 0 cs"
  have ne: "filter (\<lambda>q. q \<noteq> [] \<and> el_at root q None ''Layer'') ?ps =
            filter (\<lambda>q. case node_at root q of None \<Rightarrow> False | Some e \<Rightarrow> is_el None ''Layer'' e) ?ps"
    by (rule filter_cong) (auto simp: el_at_def dest: positions_from_nonempty)
  have m: "map (node_at root) ?ps = map Some (descendants root)"
    using positions_nodes(1)[of root] Element by simp
  show ?thesis
    unfolding findall_layer_names_def first_name_values_def
    using select_by_position[OF m, of "\<lambda>layer. case find (is_el None ''Name'') (el_children layer) of
                              None \<Rightarrow> [] | Some name_el \<Rightarrow> truthy_text name_el" "is_el None ''Layer''"]
    by (simp add: Element ne[unfolded Element])
qed


lemma node_at_append:
  "node_at root q = Some e \<Longrightarrow> node_at root (q @ p) = node_at e p"
  by (induction q arbitrary: root) (auto split: if_splits)

lemma node_at_prefix:
  "node_at root (q @ p) = Some n \<Longrightarrow> \<exists>e. node_at root q = Some e"
  by (induction q arbitrary: root) (auto split: if_splits)

lemma node_at_take:
  assumes "node_at root p = Some n"
  shows "\<exists>e. node_at root (take k p) = Some e"
  using node_at_prefix[of root "take k p" "drop k p" n] assms by simp

lemma chain_Nil: "chain root [] = []"
  by (simp add: chain_def)

lemma chain_snoc: "chain root (q @ [j]) = the (node_at root q) # chain root q"
  by (simp add: chain_def)

lemma butlast_chain:
  "set (butlast (chain root q)) = (\<lambda>k. the (node_at root (take k q))) ` {1..<length q}"
proof -
  have "butlast (rev [0..<length q]) = rev [1..<length q]"
    by (cases "length q") (simp_all add: butlast_rev upt_conv_Cons del: upt_Suc)
  then show ?thesis by (simp add: chain_def map_butlast[symmetric])
qed

lemma layer_name_position_chain:
  assumes "node_at root p = Some n"
  shows "layer_name_position (Some uri) root p \<longleftrightarrow>
     is_el (Some uri) ''Name'' n \<and>
     (case chain root p of
        [] \<Rightarrow> False
      | parent # elders \<Rightarrow>
          is_el (Some uri) ''Layer'' parent \<and>
          (\<exists>c \<in> set (butlast elders). is_el (Some uri) ''Capability'' c))"
proof (cases p rule: rev_cases)
  case Nil
  then show ?thesis by (simp add: layer_name_position_def chain_Nil)
next
  case (snoc q j)
  from assms snoc obtain l where l: "node_at root q = Some l"
    using node_at_prefix[of root q "[j]" n] by auto
  have ex: "\<And>k. k \<in> {1..<length q} \<Longrightarrow>
      el_at root (take k p) (Some uri) ''Capability'' =
      is_el (Some uri) ''Capability'' (the (node_at root (take k q)))"
  proof -
    fix k assume "k \<in> {1..<length q}"
    then have t: "take k p = take k q" using snoc by simp
    obtain e where "node_at root (take k q) = Some e"
      using node_at_take[OF l, of k] by blast
    then show "el_at root (take k p) (Some uri) ''Capability'' =
               is_el (Some uri) ''Capability'' (the (node_at root (take k q)))"
      unfolding t by (simp add: el_at_def)
  qed
  show ?thesis
    using assms l snoc ex
    by (auto simp: layer_name_position_def chain_snoc butlast_chain el_at_def)
qed

lemma xpath_layer_names_positions:
  "node_at root q = Some e \<Longrightarrow>
     xpath_layer_names uri (chain root q) e =
       map (\<lambda>p. the (node_at root p))
         (filter (layer_name_position (Some uri) root) (map ((@) q) (positions e)))"
  "node_at root q = Some E \<Longrightarrow> el_children E = pre @ cs \<Longrightarrow> length pre = i \<Longrightarrow>
     concat (map (xpath_layer_names uri (E # chain root q)) cs) =
       map (\<lambda>p. the (node_at root p))
         (filter (layer_name_position (Some uri) root) (map ((@) q) (positions_from i cs)))"
proof (induction e and i cs arbitrary: q and q E pre rule: positions_positions_from.induct)
  case (1 ns t x cs)
  let ?e = "Element ns t x cs"
  have tl: "concat (map (xpath_layer_names uri (?e # chain root q)) cs) =
       map (\<lambda>p. the (node_at root p))
         (filter (layer_name_position (Some uri) root) (map ((@) q) (positions_from 0 cs)))"
    using "1.IH"[of q ?e "[]"] "1.prems" by simp
  show ?case
    using layer_name_position_chain[OF "1.prems", of uri] "1.prems"
    by (simp add: tl del: is_el_def)
next
  case (2 i)
  show ?case by simp
next
  case (3 i c cs)
  have c: "el_children E ! i = c" "i < length (el_children E)" using "3.prems" by auto
  have n: "node_at root (q @ [i]) = Some c"
    using node_at_append[OF "3.prems"(1), of "[i]"] c by simp
  have ch: "chain root (q @ [i]) = E # chain root q"
    using "3.prems"(1) by (simp add: chain_snoc)
  have h: "xpath_layer_names uri (E # chain root q) c =
       map (\<lambda>p. the (node_at root p))
         (filter (layer_name_position (Some uri) root) (map ((@) (q @ [i])) (positions c)))"
    using "3.IH"(1)[OF n] unfolding ch .
  have t: "concat (map (xpath_layer_names uri (E # chain root q)) cs) =
       map (\<lambda>p. the (node_at root p))
         (filter (layer_name_position (Some uri) root) (map ((@) q) (positions_from (Suc i) cs)))"
    using "3.IH"(2)[of q E "pre @ [c]"] "3.prems" by simp
  have m: "map ((@) q) (positions_from i (c # cs)) =
           map ((@) (q @ [i])) (positions c) @ map ((@) q) (positions_from (Suc i) cs)"
    by simp
  show ?case
    unfolding m by (simp only: list.map concat.simps filter_append map_append h t)
qed


lemma positions_exist: "p \<in> set (positions e) \<Longrightarrow> \<exists>n. node_at e p = Some n"
proof -
  assume "p \<in> set (positions e)"
  then have "node_at e p \<in> set (map (node_at e) (positions e))" by simp
  then show ?thesis unfolding positions_nodes(1) by auto
qed

lemma xpath_name_values:
  "concat (map truthy_text (xpath_layer_names uri [] root)) = name_values (Some uri) root"
proof -
  have "xpath_layer_names uri [] root =
       map (\<lambda>p. the (node_at root p))
         (filter (layer_name_position (Some uri) root) (positions root))"
    using xpath_layer_names_positions(1)[of root "[]" root uri] map_idI[of "positions root" "(@) []"]
    by (simp add: chain_Nil)
  moreover have "map truthy_text (map (\<lambda>p. the (node_at root p))
         (filter (layer_name_position (Some uri) root) (positions root))) =
       map (text_at root) (filter (layer_name_position (Some uri) root) (positions root))"
    by (auto simp: text_at_def dest: positions_exist)
  ultimately have "map truthy_text (xpath_layer_names uri [] root) =
       map (text_at root) (filter (layer_name_position (Some uri) root) (positions root))"
    by (simp only:)
  then show ?thesis by (simp only: name_values_def)
qed

subsection \<open>Names in order, first occurrences only (C9)\<close>

text \<open>
  Claim C9 says the extractor returns the non-empty \<^verbatim>\<open>Name\<close> values in document order,
  first occurrences only, for every document. Without a default namespace the code walks
  the \<^verbatim>\<open>Layer\<close> elements and takes the first \<^verbatim>\<open>Name\<close> child of each: a \<^verbatim>\<open>Name\<close> that
  follows a nested layer comes out before the nested layer's name, and a second
  \<^verbatim>\<open>Name\<close> child is dropped.
\<close>

theorem layer_order_not_name_order:
  "extract_layers None doc_late_name = [''A'', ''B''] \<and>
   first_occurrences (name_values None doc_late_name) = [''B'', ''A''] \<and>
   extract_layers None doc_two_names = [''A''] \<and>
   first_occurrences (name_values None doc_two_names) = [''A'', ''B'']"
  by (simp add: extract_layers_def collect_layers_def findall_layer_names_def dict_fromkeys_def
        is_el_def truthy_text_def doc_late_name_def doc_two_names_def
        first_occurrences_def name_values_def layer_name_position_def el_at_def text_at_def)

text \<open>
  Claim C9, amended: for a document whose root declares a default namespace, the
  extractor returns the non-empty values of the \<^verbatim>\<open>Name\<close> children of the \<^verbatim>\<open>Layer\<close>
  elements under \<^verbatim>\<open>Capability\<close>, in document order, each at its first occurrence only.
  For a document without one it returns, for each \<^verbatim>\<open>Layer\<close> below the root in the
  document order of the \<^verbatim>\<open>Layer\<close> elements, the non-empty value of its first \<^verbatim>\<open>Name\<close>
  child, each at its first occurrence only. The result has no duplicates and no empty
  value, and a document that names the layer \<^verbatim>\<open>A\<close> twice, at different depths, yields
  \<^verbatim>\<open>["A"]\<close>, with and without a namespace.
\<close>

theorem extract_layers_first_occurrences:
  "(uri \<noteq> [] \<longrightarrow>
      extract_layers (Some uri) root = first_occurrences (name_values (Some uri) root)) \<and>
   extract_layers None root = first_occurrences (first_name_values root) \<and>
   extract_layers (Some []) root = first_occurrences (first_name_values root) \<and>
   distinct (extract_layers ns_uri root) \<and>
   [] \<notin> set (extract_layers ns_uri root) \<and>
   extract_layers None doc_plain = [''A''] \<and>
   extract_layers (Some ''http://www.opengis.net/wms'') doc_wms = [''A'']"
proof -
  have "uri \<noteq> [] \<longrightarrow>
      extract_layers (Some uri) root = first_occurrences (name_values (Some uri) root)"
    by (simp add: extract_layers_def collect_layers_def dict_fromkeys_first xpath_name_values)
  moreover have "extract_layers None root = first_occurrences (first_name_values root)"
    by (simp add: extract_layers_def collect_layers_def dict_fromkeys_first
          findall_layer_names_positions)
  moreover have "extract_layers (Some []) root = first_occurrences (first_name_values root)"
    by (simp add: extract_layers_def collect_layers_def dict_fromkeys_first
          findall_layer_names_positions)
  moreover have "distinct (extract_layers ns_uri root)"
    by (simp add: extract_layers_def dict_fromkeys_def fromkeys_distinct)
  moreover have "[] \<notin> set (extract_layers ns_uri root)"
    using collect_layers_nonempty[of ns_uri root]
    by (simp add: extract_layers_def dict_fromkeys_def fromkeys_set)
  moreover have "extract_layers None doc_plain = [''A'']"
    by (simp add: extract_layers_def collect_layers_def findall_layer_names_def doc_plain_def
          dict_fromkeys_def is_el_def truthy_text_def)
  moreover have "extract_layers (Some ''http://www.opengis.net/wms'') doc_wms = [''A'']"
    by (simp add: extract_layers_def collect_layers_def doc_wms_def dict_fromkeys_def
          is_el_def truthy_text_def)
  ultimately show ?thesis by blast
qed

theorem extract_layers_first_occurrences_witness:
  "first_occurrences (name_values (Some ''http://www.opengis.net/wms'') doc_wms) = [''A''] \<and>
   first_occurrences (first_name_values doc_plain) = [''A'']"
  using extract_layers_first_occurrences [of "''http://www.opengis.net/wms''" doc_wms]
        extract_layers_first_occurrences [of "''x''" doc_plain]
  by simp

end
